theory Spec2Isabelle
  imports Main
begin

section \<open>Values exchanged with the outside world\<close>

text \<open>
  The development follows \<^verbatim>\<open>kkrasta_keyworder.py\<close>. A Python \<^verbatim>\<open>str\<close> is the list
  of its code points, so \<^const>\<open>length\<close> is Python's \<^verbatim>\<open>len\<close> and a lone surrogate, as
  \<^verbatim>\<open>json.loads\<close> makes of the escape \<^verbatim>\<open>\ud800\<close>, is the one-element list \<open>[55296]\<close>.
  \<open>lit\<close> gives the \<^verbatim>\<open>str\<close> of a literal.
\<close>

type_synonym pystr = "int list"

definition lit :: "string \<Rightarrow> pystr" where
  "lit s = map of_char s"

datatype SearchEngine =
  GOOGLE | YOUTUBE | BING | AMAZON | YAHOO | EBAY | DUCKDUCKGO | DUCKDUCKGO_TOR

text \<open>
  The value \<^verbatim>\<open>response.json()\<close> returns. An object is the list of its items in
  order; a key is looked up at its first binding.
\<close>

datatype json =
  JNull | JBool bool | JNum int | JStr pystr | JArr "json list" | JObj "(pystr \<times> json) list"

datatype exn =
  RequestException | JSONDecodeError | TypeError | KeyError | IndexError | AttributeError | OSError
  | UnicodeEncodeError

text \<open>
  What one HTTP request yields: \<open>Failed\<close> when \<^verbatim>\<open>session.get\<close> or
  \<^verbatim>\<open>raise_for_status\<close> raises a \<^verbatim>\<open>RequestException\<close>; otherwise the body, given as
  what the two library readers make of it: the value \<^verbatim>\<open>response.json()\<close> decodes
  (\<open>None\<close> when the body is not JSON) and the groups \<^verbatim>\<open>re.findall\<close> captures in
  \<^verbatim>\<open>response.text\<close> with the eBay pattern.
\<close>

datatype http_result = Failed | Response "json option" "pystr list"

section \<open>Python primitives used by the clients\<close>

text \<open>The characters \<^verbatim>\<open>str.strip\<close> removes: those for which \<^verbatim>\<open>str.isspace\<close> holds.\<close>

definition is_space :: "int \<Rightarrow> bool" where
  "is_space c =
     ((9 \<le> c \<and> c \<le> 13) \<or> (28 \<le> c \<and> c \<le> 32) \<or> c = 133 \<or> c = 160 \<or> c = 5760
      \<or> (8192 \<le> c \<and> c \<le> 8202) \<or> c = 8232 \<or> c = 8233 \<or> c = 8239 \<or> c = 8287
      \<or> c = 12288)"

definition strip :: "pystr \<Rightarrow> pystr" where
  "strip s = rev (dropWhile is_space (rev (dropWhile is_space s)))"

fun starts_with :: "pystr \<Rightarrow> pystr \<Rightarrow> bool" where
  "starts_with [] s = True"
| "starts_with (k # ks) [] = False"
| "starts_with (k # ks) (c # cs) = (k = c \<and> starts_with ks cs)"

fun is_substr :: "pystr \<Rightarrow> pystr \<Rightarrow> bool" where
  "is_substr k [] = (k = [])"
| "is_substr k (c # cs) = (starts_with k (c # cs) \<or> is_substr k cs)"

definition is_str :: "json \<Rightarrow> bool" where
  "is_str x = (case x of JStr t \<Rightarrow> True | _ \<Rightarrow> False)"

text \<open>\<^verbatim>\<open>len(x)\<close>\<close>

definition py_len :: "json \<Rightarrow> exn + nat" where
  "py_len x =
     (case x of
        JArr xs \<Rightarrow> Inr (length xs)
      | JObj kvs \<Rightarrow> Inr (length kvs)
      | JStr s \<Rightarrow> Inr (length s)
      | _ \<Rightarrow> Inl TypeError)"

text \<open>\<^verbatim>\<open>x[1]\<close>\<close>

definition py_index1 :: "json \<Rightarrow> exn + json" where
  "py_index1 x =
     (case x of
        JArr xs \<Rightarrow> (case xs of _ # y # _ \<Rightarrow> Inr y | _ \<Rightarrow> Inl IndexError)
      | JStr s \<Rightarrow> (case s of _ # c # _ \<Rightarrow> Inr (JStr [c]) | _ \<Rightarrow> Inl IndexError)
      | JObj kvs \<Rightarrow> Inl KeyError
      | _ \<Rightarrow> Inl TypeError)"

text \<open>\<^verbatim>\<open>key in x\<close> for a string constant \<^verbatim>\<open>key\<close>\<close>

definition py_contains :: "pystr \<Rightarrow> json \<Rightarrow> exn + bool" where
  "py_contains key x =
     (case x of
        JObj kvs \<Rightarrow> Inr (key \<in> set (map fst kvs))
      | JArr xs \<Rightarrow> Inr (JStr key \<in> set xs)
      | JStr s \<Rightarrow> Inr (is_substr key s)
      | _ \<Rightarrow> Inl TypeError)"

text \<open>\<^verbatim>\<open>x[key]\<close> for a string constant \<^verbatim>\<open>key\<close>\<close>

definition py_getitem :: "json \<Rightarrow> pystr \<Rightarrow> exn + json" where
  "py_getitem x key =
     (case x of
        JObj kvs \<Rightarrow> (case map_of kvs key of None \<Rightarrow> Inl KeyError | Some v \<Rightarrow> Inr v)
      | _ \<Rightarrow> Inl TypeError)"

text \<open>The elements \<^verbatim>\<open>for item in x\<close> runs through\<close>

definition py_iter :: "json \<Rightarrow> exn + json list" where
  "py_iter x =
     (case x of
        JArr xs \<Rightarrow> Inr xs
      | JObj kvs \<Rightarrow> Inr (map (\<lambda>kv. JStr (fst kv)) kvs)
      | JStr s \<Rightarrow> Inr (map (\<lambda>c. JStr [c]) s)
      | _ \<Rightarrow> Inl TypeError)"

text \<open>
  A \<^verbatim>\<open>for\<close> loop that appends to a result list: \<open>body\<close> gives what one round appends,
  and the first round that raises ends the loop with its exception.
\<close>

fun for_each :: "('a \<Rightarrow> exn + 'b list) \<Rightarrow> 'a list \<Rightarrow> exn + 'b list" where
  "for_each body [] = Inr []"
| "for_each body (x # xs) =
     (case body x of
        Inl e \<Rightarrow> Inl e
      | Inr ys \<Rightarrow> (case for_each body xs of Inl e \<Rightarrow> Inl e | Inr zs \<Rightarrow> Inr (ys @ zs)))"

text \<open>\<^verbatim>\<open>re.sub(r'<[^>]+>', '', s)\<close>\<close>

function strip_tags :: "pystr \<Rightarrow> pystr" where
  "strip_tags [] = []"
| "strip_tags (c # cs) =
     (if c = of_char (CHR ''<'') \<and> takeWhile (\<lambda>d. d \<noteq> of_char (CHR ''>'')) cs \<noteq> []
         \<and> dropWhile (\<lambda>d. d \<noteq> of_char (CHR ''>'')) cs \<noteq> []
      then strip_tags (tl (dropWhile (\<lambda>d. d \<noteq> of_char (CHR ''>'')) cs))
      else c # strip_tags cs)"
  by pat_completeness auto
termination
proof (relation "measure length")
  show "wf (measure length)" by simp
next
  fix c :: int and cs :: pystr
  have "length (tl (dropWhile (\<lambda>d. d \<noteq> of_char (CHR ''>'')) cs)) \<le> length cs"
    using length_dropWhile_le [of "\<lambda>d. d \<noteq> of_char (CHR ''>'')" cs] by simp
  then show "(tl (dropWhile (\<lambda>d. d \<noteq> of_char (CHR ''>'')) cs), c # cs) \<in> measure length"
    by simp
next
  fix c :: int and cs :: pystr
  show "(cs, c # cs) \<in> measure length" by simp
qed

section \<open>The search engine clients\<close>

text \<open>\<^verbatim>\<open>SearchEngineClient._validate_keyword\<close>\<close>

definition validate_keyword :: "pystr \<Rightarrow> bool" where
  "validate_keyword keyword =
     (if keyword = [] \<or> strip keyword = [] then False
      else if length (strip keyword) > 200 then False
      else True)"

text \<open>
  The body of each client's \<^verbatim>\<open>try\<close> block after the response has arrived, from
  \<^verbatim>\<open>data = response.json()\<close> on. \<open>Inl\<close> is an exception raised there.
\<close>

definition google_body :: "pystr \<Rightarrow> json \<Rightarrow> exn + json list" where
  "google_body keyword data =
     (case py_len data of
        Inl e \<Rightarrow> Inl e
      | Inr n \<Rightarrow>
          if n > 1 then
            (case py_index1 data of
               Inl e \<Rightarrow> Inl e
             | Inr d1 \<Rightarrow>
                 (case d1 of
                    JArr xs \<Rightarrow>
                      Inr (take 20 (filter (\<lambda>suggestion. suggestion \<noteq> JStr keyword \<and> is_str suggestion) xs))
                  | _ \<Rightarrow> Inr []))
          else Inr [])"

text \<open>
  One round of \<^verbatim>\<open>if key in item and item[key] != keyword: suggestions.append(item[key])\<close>,
  the inner loop body of the Bing, Amazon and Yahoo clients.
\<close>

definition pick :: "pystr \<Rightarrow> pystr \<Rightarrow> json \<Rightarrow> exn + json list" where
  "pick key keyword item =
     (case py_contains key item of
        Inl e \<Rightarrow> Inl e
      | Inr has \<Rightarrow>
          if has then
            (case py_getitem item key of
               Inl e \<Rightarrow> Inl e
             | Inr v \<Rightarrow> if v \<noteq> JStr keyword then Inr [v] else Inr [])
          else Inr [])"

definition bing_result :: "pystr \<Rightarrow> json \<Rightarrow> exn + json list" where
  "bing_result keyword result =
     (case py_contains (lit ''Suggests'') result of
        Inl e \<Rightarrow> Inl e
      | Inr has \<Rightarrow>
          if has then
            (case py_getitem result (lit ''Suggests'') of
               Inl e \<Rightarrow> Inl e
             | Inr suggests \<Rightarrow>
                 (case py_iter suggests of
                    Inl e \<Rightarrow> Inl e
                  | Inr items \<Rightarrow> for_each (pick (lit ''Txt'') keyword) items))
          else Inr [])"

definition bing_body :: "pystr \<Rightarrow> json \<Rightarrow> exn + json list" where
  "bing_body keyword data =
     (case py_contains (lit ''AS'') data of
        Inl e \<Rightarrow> Inl e
      | Inr has_as \<Rightarrow>
          if has_as then
            (case py_getitem data (lit ''AS'') of
               Inl e \<Rightarrow> Inl e
             | Inr as \<Rightarrow>
                 (case py_contains (lit ''Results'') as of
                    Inl e \<Rightarrow> Inl e
                  | Inr has_results \<Rightarrow>
                      if has_results then
                        (case py_getitem as (lit ''Results'') of
                           Inl e \<Rightarrow> Inl e
                         | Inr results \<Rightarrow>
                             (case py_iter results of
                                Inl e \<Rightarrow> Inl e
                              | Inr rs \<Rightarrow>
                                  (case for_each (bing_result keyword) rs of
                                     Inl e \<Rightarrow> Inl e
                                   | Inr suggestions \<Rightarrow> Inr (take 20 suggestions))))
                      else Inr (take 20 [])))
          else Inr (take 20 []))"

text \<open>The Amazon (\<open>outer = ''suggestions''\<close>, \<open>inner = ''value''\<close>) and Yahoo
  (\<open>''r''\<close>, \<open>''k''\<close>) clients.\<close>

definition keyed_body :: "pystr \<Rightarrow> pystr \<Rightarrow> pystr \<Rightarrow> json \<Rightarrow> exn + json list" where
  "keyed_body outer inner keyword data =
     (case py_contains outer data of
        Inl e \<Rightarrow> Inl e
      | Inr has \<Rightarrow>
          if has then
            (case py_getitem data outer of
               Inl e \<Rightarrow> Inl e
             | Inr entries \<Rightarrow>
                 (case py_iter entries of
                    Inl e \<Rightarrow> Inl e
                  | Inr items \<Rightarrow>
                      (case for_each (pick inner keyword) items of
                         Inl e \<Rightarrow> Inl e
                       | Inr suggestions \<Rightarrow> Inr (take 20 suggestions))))
          else Inr (take 20 []))"

definition amazon_body :: "pystr \<Rightarrow> json \<Rightarrow> exn + json list" where
  "amazon_body = keyed_body (lit ''suggestions'') (lit ''value'')"

definition yahoo_body :: "pystr \<Rightarrow> json \<Rightarrow> exn + json list" where
  "yahoo_body = keyed_body (lit ''r'') (lit ''k'')"

text \<open>The DuckDuckGo loop over \<^verbatim>\<open>data[1:]\<close>; nothing in it raises.\<close>

fun ddg_items :: "pystr \<Rightarrow> json list \<Rightarrow> json list" where
  "ddg_items keyword [] = []"
| "ddg_items keyword (item # items) =
     (case item of
        JObj kvs \<Rightarrow>
          (case map_of kvs (lit ''phrase'') of
             Some phrase \<Rightarrow>
               if phrase \<noteq> JStr keyword then phrase # ddg_items keyword items
               else ddg_items keyword items
           | None \<Rightarrow> ddg_items keyword items)
      | JStr s \<Rightarrow>
          if item \<noteq> JStr keyword then item # ddg_items keyword items
          else ddg_items keyword items
      | _ \<Rightarrow> ddg_items keyword items)"

definition ddg_body :: "pystr \<Rightarrow> json \<Rightarrow> exn + json list" where
  "ddg_body keyword data =
     (case data of
        JArr xs \<Rightarrow>
          if length xs > 1 then Inr (take 20 (ddg_items keyword (tl xs)))
          else Inr (take 20 [])
      | _ \<Rightarrow> Inr (take 20 []))"

text \<open>The eBay loop over the groups found in the page.\<close>

fun ebay_matches :: "pystr \<Rightarrow> pystr list \<Rightarrow> json list" where
  "ebay_matches keyword [] = []"
| "ebay_matches keyword (m # ms) =
     (let clean_suggestion = strip (strip_tags m)
      in if clean_suggestion \<noteq> [] \<and> clean_suggestion \<noteq> keyword
         then JStr clean_suggestion # ebay_matches keyword ms
         else ebay_matches keyword ms)"

text \<open>
  The whole \<^verbatim>\<open>try\<close> block of \<^verbatim>\<open>get_suggestions\<close>, by the client class that
  \<^verbatim>\<open>_initialize_clients\<close> binds to the engine.
\<close>

definition decode :: "json option \<Rightarrow> exn + json" where
  "decode decoded = (case decoded of None \<Rightarrow> Inl JSONDecodeError | Some data \<Rightarrow> Inr data)"

definition json_client :: "(json \<Rightarrow> exn + json list) \<Rightarrow> json option \<Rightarrow> exn + json list" where
  "json_client body decoded = (case decode decoded of Inl e \<Rightarrow> Inl e | Inr data \<Rightarrow> body data)"

definition try_suggestions :: "SearchEngine \<Rightarrow> http_result \<Rightarrow> pystr \<Rightarrow> exn + json list" where
  "try_suggestions engine response keyword =
     (case response of
        Failed \<Rightarrow> Inl RequestException
      | Response decoded groups \<Rightarrow>
          (case engine of
             GOOGLE \<Rightarrow> json_client (google_body keyword) decoded
           | YOUTUBE \<Rightarrow> json_client (google_body keyword) decoded
           | BING \<Rightarrow> json_client (bing_body keyword) decoded
           | AMAZON \<Rightarrow> json_client (amazon_body keyword) decoded
           | YAHOO \<Rightarrow> json_client (yahoo_body keyword) decoded
           | EBAY \<Rightarrow> Inr (take 10 (ebay_matches keyword groups))
           | DUCKDUCKGO \<Rightarrow> json_client (ddg_body keyword) decoded
           | DUCKDUCKGO_TOR \<Rightarrow> json_client (ddg_body keyword) decoded))"

text \<open>
  \<^verbatim>\<open>get_suggestions\<close>: the guard, the request for \<^verbatim>\<open>keyword.strip()\<close>, the
  \<^verbatim>\<open>try\<close> block, and the \<^verbatim>\<open>except\<close> clauses, which all log and fall through to
  \<^verbatim>\<open>return []\<close>. \<open>net\<close> answers a query text; the second component lists the query
  texts sent.
\<close>

definition get_suggestions ::
  "SearchEngine \<Rightarrow> (pystr \<Rightarrow> http_result) \<Rightarrow> pystr \<Rightarrow> json list \<times> pystr list" where
  "get_suggestions engine net keyword =
     (if \<not> validate_keyword keyword then ([], [])
      else
        (case try_suggestions engine (net (strip keyword)) keyword of
           Inl e \<Rightarrow> ([], [strip keyword])
         | Inr suggestions \<Rightarrow> (suggestions, [strip keyword])))"

section \<open>Seed keywords\<close>

text \<open>\<^verbatim>\<open>str.split(',')\<close>\<close>

fun split_comma :: "pystr \<Rightarrow> pystr list" where
  "split_comma [] = [[]]"
| "split_comma (c # cs) =
     (if c = of_char (CHR '','') then [] # split_comma cs
      else (case split_comma cs of p # ps \<Rightarrow> (c # p) # ps | [] \<Rightarrow> [[c]]))"

text \<open>
  What the operator answers the two prompts of \<^verbatim>\<open>get_seed_keywords\<close>: a typed line,
  the lines of a readable file, a file that cannot be read, or no choice of input method.
\<close>

datatype seed_input = Typed pystr | FromFile "pystr list" | FileUnreadable | NoAnswer

definition get_seed_keywords :: "seed_input \<Rightarrow> pystr list" where
  "get_seed_keywords input =
     (let keywords =
        (case input of
           Typed seed_input \<Rightarrow>
             if seed_input \<noteq> [] then
               map strip (filter (\<lambda>kw. strip kw \<noteq> []) (split_comma seed_input))
             else []
         | FromFile lines \<Rightarrow> map strip (filter (\<lambda>line. strip line \<noteq> []) lines)
         | FileUnreadable \<Rightarrow> []
         | NoAnswer \<Rightarrow> [])
      in filter (\<lambda>keyword. \<not> length keyword > 200) keywords)"

section \<open>The application state\<close>

text \<open>
  The settings the run reads: \<^verbatim>\<open>scraping_config.max_keywords_per_engine\<close>,
  \<^verbatim>\<open>scraping_config.save_to_file\<close> and \<^verbatim>\<open>self.output_file\<close>.
\<close>

record config =
  max_keywords_per_engine :: int
  save_to_file :: bool
  output_file :: "string option"

text \<open>
  The outside world: \<open>upstream n engine query\<close> is what the engine answers the request
  sent after \<open>n\<close> earlier requests, \<open>disk_ok n\<close> tells whether the file operation
  after \<open>n\<close> earlier ones succeeds, and \<open>printable keyword\<close> whether the encoding of the
  terminal can encode the keyword, so that \<^verbatim>\<open>print\<close> in \<^verbatim>\<open>_save_keyword\<close> does not raise
  \<^verbatim>\<open>UnicodeEncodeError\<close>.
\<close>

record environment =
  upstream :: "nat \<Rightarrow> SearchEngine \<Rightarrow> pystr \<Rightarrow> http_result"
  disk_ok :: "nat \<Rightarrow> bool"
  printable :: "pystr \<Rightarrow> bool"

text \<open>What the encoding UTF-8 can encode: a text that holds no surrogate.\<close>

definition utf8_encodable :: "pystr \<Rightarrow> bool" where
  "utf8_encodable keyword = list_all (\<lambda>c. c < 55296 \<or> 57343 < c) keyword"

text \<open>
  Where a worker thread stands in \<^verbatim>\<open>scrape_keywords_worker\<close>: at the \<^verbatim>\<open>while\<close>
  test, holding the keyword it took from the queue, about to call the client, holding the
  client's answer, after \<^verbatim>\<open>break\<close>, after the loop test failed, or returned at once for
  want of a client.
\<close>

datatype phase =
  LoopTop | Dequeued pystr | Fetching pystr | Fetched pystr "json list"
  | Starved | Halted | NoClient

record worker =
  scraped_count :: int
  consecutive_failures :: int
  phase :: phase

datatype log_entry =
  ErrorSavingToFile | ErrorInitializingOutput | ErrorInWorker SearchEngine
  | StoppedByFailures SearchEngine | NoClientAvailable SearchEngine

text \<open>
  \<^verbatim>\<open>KeywordSheeter\<close> during a run. \<open>file_lines\<close> is the output file, \<open>terminal\<close> the
  keywords \<^verbatim>\<open>_save_keyword\<close> printed, \<open>file_ops\<close> counts the file operations tried.
  \<open>calls\<close> and \<open>requests\<close> record every call of \<^verbatim>\<open>get_suggestions\<close> and every query
  text sent, oldest first.
\<close>

record app =
  scraped_keywords :: "pystr set"
  keyword_queue :: "pystr list"
  stop_event :: bool
  file_lines :: "pystr list"
  terminal :: "pystr list"
  logged :: "log_entry list"
  file_ops :: nat
  calls :: "(SearchEngine \<times> pystr) list"
  requests :: "(SearchEngine \<times> pystr) list"
  workers :: "SearchEngine \<Rightarrow> worker option"

definition new_app :: app where
  "new_app =
     \<lparr>scraped_keywords = {}, keyword_queue = [], stop_event = False, file_lines = [],
      terminal = [], logged = [], file_ops = 0, calls = [], requests = [],
      workers = (\<lambda>engine. None)\<rparr>"

definition engine_value :: "SearchEngine \<Rightarrow> pystr" where
  "engine_value engine =
     (case engine of
        GOOGLE \<Rightarrow> (lit ''Google'') | YOUTUBE \<Rightarrow> (lit ''YouTube'') | BING \<Rightarrow> (lit ''Bing'')
      | AMAZON \<Rightarrow> (lit ''Amazon'') | YAHOO \<Rightarrow> (lit ''Yahoo'') | EBAY \<Rightarrow> (lit ''eBay'')
      | DUCKDUCKGO \<Rightarrow> (lit ''DuckDuckGo (Clearnet)'')
      | DUCKDUCKGO_TOR \<Rightarrow> (lit ''DuckDuckGo (via Tor)''))"

section \<open>Recording a keyword\<close>

text \<open>
  \<^verbatim>\<open>open(self.output_file, 'a', encoding='utf-8')\<close> and \<^verbatim>\<open>f.write\<close>: the new
  content, or the error raised, by \<^verbatim>\<open>open\<close> when the disk refuses, by \<^verbatim>\<open>write\<close> when the
  keyword has no encoding in UTF-8.
\<close>

definition append_line :: "bool \<Rightarrow> pystr list \<Rightarrow> pystr \<Rightarrow> exn + pystr list" where
  "append_line ok content keyword =
     (if \<not> ok then Inl OSError
      else if \<not> utf8_encodable keyword then Inl UnicodeEncodeError
      else Inr (content @ [keyword]))"

text \<open>
  The \<^verbatim>\<open>print\<close> at the head of \<^verbatim>\<open>_save_keyword\<close>, which stands before the
  \<^verbatim>\<open>try\<close>: the keyword appears on the terminal, or the exception is raised.
\<close>

definition print_keyword :: "environment \<Rightarrow> pystr \<Rightarrow> app \<Rightarrow> exn + app" where
  "print_keyword env keyword s =
     (if printable env keyword then Inr (s\<lparr>terminal := terminal s @ [keyword]\<rparr>)
      else Inl UnicodeEncodeError)"

text \<open>
  \<^verbatim>\<open>_save_keyword\<close>. The result pairs the exception that leaves the function, if any,
  with the state it leaves behind. An exception of \<^verbatim>\<open>print\<close> leaves the function; one of
  the file write is caught and logged.
\<close>

definition save_keyword ::
  "config \<Rightarrow> environment \<Rightarrow> pystr \<Rightarrow> pystr \<Rightarrow> app \<Rightarrow> exn option \<times> app" where
  "save_keyword cfg env keyword source s =
     (case print_keyword env keyword s of
        Inl e \<Rightarrow> (Some e, s)
      | Inr s1 \<Rightarrow>
          if save_to_file cfg \<and> output_file cfg \<noteq> None then
            (case append_line (disk_ok env (file_ops s1)) (file_lines s1) keyword of
               Inr content \<Rightarrow> (None, s1\<lparr>file_lines := content, file_ops := Suc (file_ops s1)\<rparr>)
             | Inl e \<Rightarrow>
                 (None, s1\<lparr>logged := logged s1 @ [ErrorSavingToFile], file_ops := Suc (file_ops s1)\<rparr>))
          else (None, s1))"

section \<open>The worker\<close>

text \<open>
  The loop over \<^verbatim>\<open>suggestions\<close> under \<^verbatim>\<open>results_lock\<close>. A suggestion that is a list or
  an object cannot be hashed for the membership test, and any other value that is not a string
  has no \<^verbatim>\<open>strip\<close>: both raise, and so does \<^verbatim>\<open>_save_keyword\<close> on a keyword that cannot
  be printed, after the keyword has been put on the queue. What was queued and saved before
  the exception stays.
\<close>

fun add_suggestions ::
  "config \<Rightarrow> environment \<Rightarrow> SearchEngine \<Rightarrow> json list \<Rightarrow> app \<Rightarrow> exn option \<times> app" where
  "add_suggestions cfg env engine [] s = (None, s)"
| "add_suggestions cfg env engine (x # xs) s =
     (case x of
        JStr suggestion \<Rightarrow>
          if suggestion \<notin> scraped_keywords s \<and> length (strip suggestion) > 0 then
            (case save_keyword cfg env suggestion (engine_value engine)
                    (s\<lparr>keyword_queue := keyword_queue s @ [suggestion]\<rparr>) of
               (Some e, s') \<Rightarrow> (Some e, s')
             | (None, s') \<Rightarrow> add_suggestions cfg env engine xs s')
          else add_suggestions cfg env engine xs s
      | JArr ys \<Rightarrow> (Some TypeError, s)
      | JObj kvs \<Rightarrow> (Some TypeError, s)
      | _ \<Rightarrow> (Some AttributeError, s))"

definition max_consecutive_failures :: int where
  "max_consecutive_failures = 5"

definition set_worker :: "SearchEngine \<Rightarrow> worker \<Rightarrow> app \<Rightarrow> app" where
  "set_worker engine w s = s\<lparr>workers := (workers s)(engine := Some w)\<rparr>"

text \<open>The warning after the loop.\<close>

definition after_loop :: "SearchEngine \<Rightarrow> worker \<Rightarrow> app \<Rightarrow> app" where
  "after_loop engine w s =
     (if consecutive_failures w \<ge> max_consecutive_failures
      then s\<lparr>logged := logged s @ [StoppedByFailures engine]\<rparr> else s)"

text \<open>
  One atomic step of the worker thread of \<open>engine\<close> in \<^verbatim>\<open>scrape_keywords_worker\<close>:
  \<^item> at the loop test: leave the loop, or take the oldest keyword from the queue, or
    \<^verbatim>\<open>break\<close> when \<^verbatim>\<open>get(timeout=5)\<close> raises \<^verbatim>\<open>Empty\<close>. A thread that waits in
    \<^verbatim>\<open>get\<close> has not taken this step yet: it takes it when a keyword has arrived or, with
    the queue still empty, when the five seconds are over;
  \<^item> under the lock: \<^verbatim>\<open>continue\<close> on a keyword already scraped, else add it to the set;
  \<^item> the call of \<^verbatim>\<open>client.get_suggestions\<close>;
  \<^item> the rest of the round: counters, and under the lock the loop over the suggestions;
    an exception there is caught by the round's \<^verbatim>\<open>except Exception\<close>, which adds one to
    the failure counter just reset and skips the count of the keyword.
  A worker that has returned does nothing. The progress messages the worker itself prints
  are taken to appear, and the pauses (\<^verbatim>\<open>time.sleep\<close>) are not part of the state.
\<close>

definition worker_step :: "config \<Rightarrow> environment \<Rightarrow> SearchEngine \<Rightarrow> app \<Rightarrow> app" where
  "worker_step cfg env engine s =
     (case workers s engine of
        None \<Rightarrow> s
      | Some w \<Rightarrow>
          (case phase w of
             LoopTop \<Rightarrow>
               if \<not> stop_event s \<and> scraped_count w < max_keywords_per_engine cfg
                  \<and> consecutive_failures w < max_consecutive_failures
               then
                 (case keyword_queue s of
                    [] \<Rightarrow> set_worker engine (w\<lparr>phase := Starved\<rparr>) (after_loop engine w s)
                  | keyword # rest \<Rightarrow>
                      set_worker engine (w\<lparr>phase := Dequeued keyword\<rparr>) (s\<lparr>keyword_queue := rest\<rparr>))
               else set_worker engine (w\<lparr>phase := Halted\<rparr>) (after_loop engine w s)
           | Dequeued keyword \<Rightarrow>
               if keyword \<in> scraped_keywords s then set_worker engine (w\<lparr>phase := LoopTop\<rparr>) s
               else
                 set_worker engine (w\<lparr>phase := Fetching keyword\<rparr>)
                   (s\<lparr>scraped_keywords := insert keyword (scraped_keywords s)\<rparr>)
           | Fetching keyword \<Rightarrow>
               (case get_suggestions engine (upstream env (length (requests s)) engine) keyword of
                  (suggestions, sent) \<Rightarrow>
                    set_worker engine (w\<lparr>phase := Fetched keyword suggestions\<rparr>)
                      (s\<lparr>calls := calls s @ [(engine, keyword)],
                         requests := requests s @ map (Pair engine) sent\<rparr>))
           | Fetched keyword suggestions \<Rightarrow>
               if suggestions \<noteq> [] then
                 (case add_suggestions cfg env engine suggestions s of
                    (None, s') \<Rightarrow>
                      set_worker engine
                        (w\<lparr>consecutive_failures := 0, scraped_count := scraped_count w + 1,
                           phase := LoopTop\<rparr>) s'
                  | (Some e, s') \<Rightarrow>
                      set_worker engine
                        (w\<lparr>consecutive_failures := 0 + 1, phase := LoopTop\<rparr>)
                        (s'\<lparr>logged := logged s' @ [ErrorInWorker engine]\<rparr>))
               else
                 set_worker engine
                   (w\<lparr>consecutive_failures := consecutive_failures w + 1,
                      scraped_count := scraped_count w + 1, phase := LoopTop\<rparr>) s
           | Starved \<Rightarrow> s
           | Halted \<Rightarrow> s
           | NoClient \<Rightarrow> s))"

section \<open>The run\<close>

text \<open>
  What can happen next in a run: the thread of one engine takes its next step, or the
  operator presses Ctrl+C and \<^verbatim>\<open>start_scraping\<close> sets \<^verbatim>\<open>stop_event\<close>.
\<close>

datatype event = Step SearchEngine | KeyboardInterrupt

fun apply_event :: "config \<Rightarrow> environment \<Rightarrow> event \<Rightarrow> app \<Rightarrow> app" where
  "apply_event cfg env (Step engine) s = worker_step cfg env engine s"
| "apply_event cfg env KeyboardInterrupt s = s\<lparr>stop_event := True\<rparr>"

fun run :: "config \<Rightarrow> environment \<Rightarrow> event list \<Rightarrow> app \<Rightarrow> app" where
  "run cfg env [] s = s"
| "run cfg env (ev # evs) s = run cfg env evs (apply_event cfg env ev s)"

definition new_worker :: worker where
  "new_worker = \<lparr>scraped_count = 0, consecutive_failures = 0, phase = LoopTop\<rparr>"

text \<open>
  \<^verbatim>\<open>start_scraping\<close> up to the point where the workers are submitted: the seeds, the
  output file emptied, every seed put on the queue, one worker per selected engine. A worker
  whose engine has no client logs that and returns before its loop. The output file is taken
  to be empty before the run.
\<close>

definition start_scraping ::
  "config \<Rightarrow> environment \<Rightarrow> SearchEngine list \<Rightarrow> SearchEngine set \<Rightarrow> seed_input \<Rightarrow> app" where
  "start_scraping cfg env selected_engines clients input =
     (let seed_keywords = get_seed_keywords input
      in if seed_keywords = [] then new_app
         else
           (let s1 =
                  (if save_to_file cfg \<and> output_file cfg \<noteq> None then
                     (if disk_ok env 0 then new_app\<lparr>file_lines := [], file_ops := 1\<rparr>
                      else new_app\<lparr>logged := [ErrorInitializingOutput], file_ops := 1\<rparr>)
                   else new_app);
                s2 = s1\<lparr>keyword_queue := keyword_queue s1 @ seed_keywords\<rparr>
            in s2\<lparr>logged :=
                     logged s2 @ map NoClientAvailable (filter (\<lambda>engine. engine \<notin> clients) selected_engines),
                   workers :=
                     (\<lambda>engine.
                        if engine \<in> set selected_engines then
                          Some (if engine \<in> clients then new_worker else new_worker\<lparr>phase := NoClient\<rparr>)
                        else None)\<rparr>))"


section \<open>Notions used in the properties\<close>

text \<open>The number of keywords the worker of \<open>engine\<close> has passed to its client so far.\<close>

definition calls_by :: "SearchEngine \<Rightarrow> app \<Rightarrow> nat" where
  "calls_by engine s = length (filter (\<lambda>c. fst c = engine) (calls s))"

text \<open>What the client of \<open>engine\<close> returns for \<open>keyword\<close> after \<open>n\<close> earlier requests.\<close>

definition answers :: "environment \<Rightarrow> SearchEngine \<Rightarrow> nat \<Rightarrow> pystr \<Rightarrow> json list" where
  "answers env engine n keyword = fst (get_suggestions engine (upstream env n engine) keyword)"

text \<open>The worker of \<open>engine\<close> has left \<^verbatim>\<open>scrape_keywords_worker\<close> (or was never submitted).\<close>

definition finished :: "app \<Rightarrow> SearchEngine \<Rightarrow> bool" where
  "finished s engine =
     (case workers s engine of
        None \<Rightarrow> True
      | Some w \<Rightarrow> phase w = Starved \<or> phase w = Halted \<or> phase w = NoClient)"

text \<open>The \<^verbatim>\<open>while\<close> test of the worker.\<close>

definition loop_test :: "config \<Rightarrow> app \<Rightarrow> worker \<Rightarrow> bool" where
  "loop_test cfg s w =
     (\<not> stop_event s \<and> scraped_count w < max_keywords_per_engine cfg
      \<and> consecutive_failures w < max_consecutive_failures)"

text \<open>
  A source that keeps to the declared result type \<^verbatim>\<open>List[str]\<close> of
  \<^verbatim>\<open>get_suggestions\<close>, and a source whose every query comes back empty (a network
  error, an undecodable body, or no suggestion).
\<close>

definition text_only :: "environment \<Rightarrow> SearchEngine \<Rightarrow> bool" where
  "text_only env engine = (\<forall>n keyword. \<forall>x \<in> set (answers env engine n keyword). is_str x)"


text \<open>
  Sources that return no new suggestions: every suggestion a worker could put on the queue,
  that is every string with a character that is not white space, is one of the seeds. What a
  source returns beside that (nothing, blank strings, values that are not strings) is not
  restricted.
\<close>

definition no_new_suggestions :: "environment \<Rightarrow> seed_input \<Rightarrow> bool" where
  "no_new_suggestions env input =
     (\<forall>n engine keyword t.
        JStr t \<in> set (answers env engine n keyword) \<and> strip t \<noteq> [] \<longrightarrow>
        t \<in> set (get_seed_keywords input))"

text \<open>
  Invariant of a run: no keyword has been passed to a client twice, every keyword passed or
  about to be passed is in the scraped set, and no two workers are about to pass the same one.
\<close>

definition once_inv :: "app \<Rightarrow> bool" where
  "once_inv s =
     (distinct (map snd (calls s))
      \<and> snd ` set (calls s) \<subseteq> scraped_keywords s
      \<and> (\<forall>e w k. workers s e = Some w \<and> phase w = Fetching k \<longrightarrow>
            k \<in> scraped_keywords s \<and> k \<notin> snd ` set (calls s))
      \<and> (\<forall>e e' w w' k. workers s e = Some w \<and> phase w = Fetching k
            \<and> workers s e' = Some w' \<and> phase w' = Fetching k \<longrightarrow> e = e'))"



text \<open>
  Invariant of a run whose keywords all come from the set \<open>universe\<close>: the queue, the
  keyword a worker has just taken, and what a worker could queue from the answer in its hand.
\<close>

definition within :: "pystr set \<Rightarrow> app \<Rightarrow> bool" where
  "within universe s =
     (set (keyword_queue s) \<subseteq> universe
      \<and> (\<forall>e w k. workers s e = Some w \<and> phase w = Dequeued k \<longrightarrow> k \<in> universe)
      \<and> (\<forall>e w k xs t. workers s e = Some w \<and> phase w = Fetched k xs
            \<and> JStr t \<in> set xs \<and> strip t \<noteq> [] \<longrightarrow> t \<in> universe))"

text \<open>
  A bound on the steps that remain: four for every queued keyword, for every worker a weight
  by where it stands, and 84 for every keyword of the universe not yet in the scraped set. A
  keyword enters that set before it is passed to a client, and the answer adds at most twenty
  keywords to the queue.
\<close>

definition all_engines :: "SearchEngine list" where
  "all_engines = [GOOGLE, YOUTUBE, BING, AMAZON, YAHOO, EBAY, DUCKDUCKGO, DUCKDUCKGO_TOR]"

definition weight :: "worker \<Rightarrow> nat" where
  "weight w =
     (case phase w of
        LoopTop \<Rightarrow> 1
      | Dequeued k \<Rightarrow> 4
      | Fetching k \<Rightarrow> 83
      | Fetched k suggestions \<Rightarrow> 2 + 4 * length suggestions
      | _ \<Rightarrow> 0)"

definition load :: "app \<Rightarrow> nat" where
  "load s =
     sum_list (map (\<lambda>engine. case workers s engine of None \<Rightarrow> 0 | Some w \<Rightarrow> weight w) all_engines)"

definition potential :: "pystr set \<Rightarrow> app \<Rightarrow> nat" where
  "potential universe s =
     4 * length (keyword_queue s) + load s + 84 * card (universe - scraped_keywords s)"

text \<open>The value of that bound at the start of a run, at most.\<close>

definition finishing_bound :: "seed_input \<Rightarrow> nat" where
  "finishing_bound input = 88 * length (get_seed_keywords input) + 8"

section \<open>Example settings and runs\<close>

definition default_config :: config where
  "default_config =
     \<lparr>max_keywords_per_engine = 1000, save_to_file = True,
      output_file = Some ''keywords_output.txt''\<rparr>"


definition tiny_cap :: config where
  "tiny_cap =
     \<lparr>max_keywords_per_engine = 1, save_to_file = True,
      output_file = Some ''keywords_output.txt''\<rparr>"

text \<open>No engine can be reached; the disk works and the terminal is a UTF-8 one.\<close>

definition offline :: environment where
  "offline =
     \<lparr>upstream = (\<lambda>n engine query. Failed), disk_ok = (\<lambda>n. True), printable = utf8_encodable\<rparr>"

text \<open>
  Every engine answers every query with the body \<^verbatim>\<open>[query, [suggestion, ...]]\<close>, the
  format of the Google and YouTube endpoints.
\<close>

definition suggesting :: "pystr list \<Rightarrow> environment" where
  "suggesting suggestions =
     \<lparr>upstream = (\<lambda>n engine query. Response (Some (JArr [JStr query, JArr (map JStr suggestions)])) []),
      disk_ok = (\<lambda>n. True), printable = utf8_encodable\<rparr>"

text \<open>
  Every engine answers every query with the body
  \<^verbatim>\<open>{"suggestions": [{"value": v}, ...]}\<close>, the format of the Amazon endpoint.
\<close>

definition amazon_answering :: "json list \<Rightarrow> environment" where
  "amazon_answering values =
     \<lparr>upstream = (\<lambda>n engine query.
        Response (Some (JObj [(lit ''suggestions'', JArr (map (\<lambda>v. JObj [(lit ''value'', v)]) values))])) []),
      disk_ok = (\<lambda>n. True), printable = utf8_encodable\<rparr>"

text \<open>The query \<^verbatim>\<open>c\<close> is answered in that format, every other request fails.\<close>

definition answering_c :: "json list \<Rightarrow> environment" where
  "answering_c values =
     \<lparr>upstream = (\<lambda>n engine query.
        if query = lit ''c''
        then Response (Some (JObj [(lit ''suggestions'', JArr (map (\<lambda>v. JObj [(lit ''value'', v)]) values))])) []
        else Failed),
      disk_ok = (\<lambda>n. True), printable = utf8_encodable\<rparr>"

text \<open>The string \<^verbatim>\<open>json.loads\<close> makes of \<^verbatim>\<open>"\ud800"\<close>.\<close>

definition lone_surrogate :: pystr where
  "lone_surrogate = [55296]"

text \<open>The four steps of one round of a worker.\<close>

definition iteration :: "SearchEngine \<Rightarrow> event list" where
  "iteration engine = [Step engine, Step engine, Step engine, Step engine]"


definition blank_in_hand :: app where
  "blank_in_hand =
     new_app\<lparr>workers := (\<lambda>engine. if engine = GOOGLE
        then Some \<lparr>scraped_count = 0, consecutive_failures = 0, phase = Fetching (lit ''  '')\<rparr>
        else None)\<rparr>"

text \<open>
  Two workers take one seed each, both sources answer with the same suggestion, and both
  workers process their answer before the suggestion is taken from the queue.
\<close>

definition widget_run :: app where
  "widget_run =
     run default_config (suggesting [lit ''blue widget''])
       [Step GOOGLE, Step GOOGLE, Step GOOGLE, Step YOUTUBE, Step YOUTUBE, Step YOUTUBE,
        Step GOOGLE, Step YOUTUBE]
       (start_scraping default_config (suggesting [lit ''blue widget'']) [GOOGLE, YOUTUBE]
          {GOOGLE, YOUTUBE} (Typed (lit ''widget, gadget'')))"




text \<open>
  Three rounds of one worker under a cap of one keyword: Amazon's, whose source answers every
  query with the number 5 as its one suggestion, and Google's, whose source answers every query
  with a lone surrogate.
\<close>

definition uncounted_run :: app where
  "uncounted_run =
     run tiny_cap (amazon_answering [JNum 5])
       (iteration AMAZON @ iteration AMAZON @ iteration AMAZON)
       (start_scraping tiny_cap (amazon_answering [JNum 5]) [AMAZON] {AMAZON}
          (Typed (lit ''a, b, c'')))"

definition unprinted_run :: app where
  "unprinted_run =
     run tiny_cap (suggesting [lone_surrogate])
       (iteration GOOGLE @ iteration GOOGLE @ iteration GOOGLE)
       (start_scraping tiny_cap (suggesting [lone_surrogate]) [GOOGLE] {GOOGLE}
          (Typed (lit ''a, b, c'')))"

text \<open>
  Amazon's worker with the seeds \<^verbatim>\<open>a, b, c\<close>: the queries for \<^verbatim>\<open>a\<close> and \<^verbatim>\<open>b\<close> fail,
  the one for \<^verbatim>\<open>c\<close> is answered with the suggestions \<^verbatim>\<open>"ok"\<close> and 5. The run before and
  after the third round.
\<close>

definition two_failures_run :: app where
  "two_failures_run =
     run default_config (answering_c [JStr (lit ''ok''), JNum 5])
       (iteration AMAZON @ iteration AMAZON)
       (start_scraping default_config (answering_c [JStr (lit ''ok''), JNum 5]) [AMAZON] {AMAZON}
          (Typed (lit ''a, b, c'')))"

definition success_run :: app where
  "success_run =
     run default_config (answering_c [JStr (lit ''ok''), JNum 5])
       (iteration AMAZON @ iteration AMAZON @ iteration AMAZON)
       (start_scraping default_config (answering_c [JStr (lit ''ok''), JNum 5]) [AMAZON] {AMAZON}
          (Typed (lit ''a, b, c'')))"

text \<open>A source that answers with a suggestion of 201 characters and a padded one.\<close>

definition overlong :: pystr where
  "overlong = replicate 201 (of_char (CHR ''b''))"

definition overlong_run :: app where
  "overlong_run =
     run default_config (suggesting [overlong, lit '' padded '']) (iteration GOOGLE)
       (start_scraping default_config (suggesting [overlong, lit '' padded '']) [GOOGLE] {GOOGLE}
          (Typed (lit ''a'')))"

section \<open>The clients never return the keyword they were asked about\<close>

lemma for_each_excludes:
  assumes "for_each body xs = Inr ys" and "\<And>x zs. body x = Inr zs \<Longrightarrow> a \<notin> set zs"
  shows "a \<notin> set ys"
  using assms(1)
proof (induction xs arbitrary: ys)
  case Nil
  then show ?case by simp
next
  case (Cons x xs)
  then show ?case
    by (auto split: sum.splits dest: assms(2))
qed

lemma google_body_excludes: "google_body keyword data = Inr ys \<Longrightarrow> JStr keyword \<notin> set ys"
  by (auto simp: google_body_def split: sum.splits if_splits json.splits dest: in_set_takeD)

lemma pick_excludes: "pick key keyword item = Inr ys \<Longrightarrow> JStr keyword \<notin> set ys"
  by (auto simp: pick_def split: sum.splits if_splits)

lemma bing_result_excludes: "bing_result keyword result = Inr ys \<Longrightarrow> JStr keyword \<notin> set ys"
  unfolding bing_result_def
  by (auto split: sum.splits if_splits dest: for_each_excludes [where a = "JStr keyword"] pick_excludes)

lemma bing_body_excludes: "bing_body keyword data = Inr ys \<Longrightarrow> JStr keyword \<notin> set ys"
  unfolding bing_body_def
  by (auto split: sum.splits if_splits
      dest!: for_each_excludes [where a = "JStr keyword"] in_set_takeD dest: bing_result_excludes)

lemma keyed_body_excludes: "keyed_body outer inner keyword data = Inr ys \<Longrightarrow> JStr keyword \<notin> set ys"
  unfolding keyed_body_def
  by (auto split: sum.splits if_splits
      dest!: for_each_excludes [where a = "JStr keyword"] in_set_takeD dest: pick_excludes)

lemma ddg_items_excludes: "JStr keyword \<notin> set (ddg_items keyword items)"
  by (induction items) (auto split: json.splits option.splits)

lemma ddg_body_excludes: "ddg_body keyword data = Inr ys \<Longrightarrow> JStr keyword \<notin> set ys"
  using ddg_items_excludes [of keyword]
  by (auto simp: ddg_body_def split: json.splits if_splits dest!: in_set_takeD)

lemma ebay_matches_excludes: "JStr keyword \<notin> set (ebay_matches keyword ms)"
  by (induction ms) (auto simp: Let_def)

lemma try_suggestions_excludes:
  "try_suggestions engine response keyword = Inr ys \<Longrightarrow> JStr keyword \<notin> set ys"
  using ebay_matches_excludes [of keyword]
  by (cases engine)
     (auto simp: try_suggestions_def json_client_def amazon_body_def yahoo_body_def
        split: http_result.splits sum.splits
        dest: google_body_excludes bing_body_excludes keyed_body_excludes ddg_body_excludes
        dest!: in_set_takeD)

text \<open>
  Claim C8. Whatever the engine, the keyword asked about and the answer of the upstream
  server, the list \<^verbatim>\<open>get_suggestions\<close> returns does not contain that keyword: every
  client compares each candidate with \<^verbatim>\<open>keyword\<close> before it keeps it.
\<close>

theorem get_suggestions_excludes_keyword:
  "JStr keyword \<notin> set (fst (get_suggestions engine net keyword))"
  by (auto simp: get_suggestions_def split: sum.splits dest: try_suggestions_excludes)

section \<open>A failed write to the output file\<close>



section \<open>Single steps of a worker\<close>

lemma save_keyword_frame:
  "save_keyword cfg env keyword source s = (r, s') \<Longrightarrow>
   scraped_keywords s' = scraped_keywords s \<and> keyword_queue s' = keyword_queue s
   \<and> stop_event s' = stop_event s \<and> workers s' = workers s \<and> calls s' = calls s
   \<and> requests s' = requests s"
  by (auto simp: save_keyword_def print_keyword_def append_line_def split: if_splits)

text \<open>
  The loop over the suggestions, whether it runs to its end or is left by an exception: what
  it leaves alone, and what it can have put on the queue.
\<close>

lemma add_suggestions_effect:
  "add_suggestions cfg env engine xs s = (r, s') \<Longrightarrow>
   scraped_keywords s' = scraped_keywords s \<and> stop_event s' = stop_event s
   \<and> workers s' = workers s \<and> calls s' = calls s \<and> requests s' = requests s
   \<and> length (keyword_queue s') \<le> length (keyword_queue s) + length xs
   \<and> set (keyword_queue s') \<subseteq> set (keyword_queue s) \<union> {t. JStr t \<in> set xs \<and> strip t \<noteq> []}"
proof (induction xs arbitrary: s)
  case Nil
  then show ?case by simp
next
  case (Cons x xs)
  show ?case
  proof (cases x)
    case (JStr t)
    show ?thesis
    proof (cases "t \<notin> scraped_keywords s \<and> length (strip t) > 0")
      case True
      obtain r1 s1 where sk: "save_keyword cfg env t (engine_value engine)
          (s\<lparr>keyword_queue := keyword_queue s @ [t]\<rparr>) = (r1, s1)"
        by (cases "save_keyword cfg env t (engine_value engine) (s\<lparr>keyword_queue := keyword_queue s @ [t]\<rparr>)")
      from save_keyword_frame [OF sk]
      have f1: "scraped_keywords s1 = scraped_keywords s" "stop_event s1 = stop_event s"
          "workers s1 = workers s" "calls s1 = calls s" "requests s1 = requests s"
        and q1: "keyword_queue s1 = keyword_queue s @ [t]"
        by simp_all
      from True have t: "strip t \<noteq> []" by auto
      show ?thesis
      proof (cases r1)
        case None
        with Cons.prems JStr True sk have "add_suggestions cfg env engine xs s1 = (r, s')"
          by simp
        from Cons.IH [OF this] f1 q1 t JStr show ?thesis by auto
      next
        case (Some e)
        with Cons.prems JStr True sk have "s' = s1" by simp
        with f1 q1 t JStr show ?thesis by auto
      qed
    next
      case False
      with Cons.prems JStr have "add_suggestions cfg env engine xs s = (r, s')"
        by auto
      from Cons.IH [OF this] show ?thesis by auto
    qed
  qed (use Cons.prems in auto)
qed

lemma add_suggestions_frame:
  "add_suggestions cfg env engine xs s = (r, s') \<Longrightarrow>
   scraped_keywords s' = scraped_keywords s \<and> stop_event s' = stop_event s
   \<and> workers s' = workers s \<and> calls s' = calls s \<and> requests s' = requests s"
  by (simp add: add_suggestions_effect)

lemma add_suggestions_queue:
  "add_suggestions cfg env engine xs s = (r, s') \<Longrightarrow>
   length (keyword_queue s') \<le> length (keyword_queue s) + length xs"
  by (simp add: add_suggestions_effect)

lemma add_suggestions_within:
  "add_suggestions cfg env engine xs s = (r, s') \<Longrightarrow>
   set (keyword_queue s') \<subseteq> set (keyword_queue s) \<union> {t. JStr t \<in> set xs \<and> strip t \<noteq> []}"
  by (simp add: add_suggestions_effect)

lemma worker_step_cases [consumes 1, case_names leave starve dequeue skip admit call failure added raised idle]:
  assumes w: "workers s engine = Some w"
  obtains
    "phase w = LoopTop" and "\<not> loop_test cfg s w"
      and "worker_step cfg env engine s = set_worker engine (w\<lparr>phase := Halted\<rparr>) (after_loop engine w s)"
  | "phase w = LoopTop" and "loop_test cfg s w" and "keyword_queue s = []"
      and "worker_step cfg env engine s = set_worker engine (w\<lparr>phase := Starved\<rparr>) (after_loop engine w s)"
  | keyword rest where "phase w = LoopTop" and "loop_test cfg s w" and "keyword_queue s = keyword # rest"
      and "worker_step cfg env engine s =
            set_worker engine (w\<lparr>phase := Dequeued keyword\<rparr>) (s\<lparr>keyword_queue := rest\<rparr>)"
  | keyword where "phase w = Dequeued keyword" and "keyword \<in> scraped_keywords s"
      and "worker_step cfg env engine s = set_worker engine (w\<lparr>phase := LoopTop\<rparr>) s"
  | keyword where "phase w = Dequeued keyword" and "keyword \<notin> scraped_keywords s"
      and "worker_step cfg env engine s =
            set_worker engine (w\<lparr>phase := Fetching keyword\<rparr>)
              (s\<lparr>scraped_keywords := insert keyword (scraped_keywords s)\<rparr>)"
  | keyword where "phase w = Fetching keyword"
      and "worker_step cfg env engine s =
            set_worker engine
              (w\<lparr>phase := Fetched keyword (answers env engine (length (requests s)) keyword)\<rparr>)
              (s\<lparr>calls := calls s @ [(engine, keyword)],
                 requests := requests s @
                   map (Pair engine)
                     (snd (get_suggestions engine (upstream env (length (requests s)) engine) keyword))\<rparr>)"
  | keyword where "phase w = Fetched keyword []"
      and "worker_step cfg env engine s =
            set_worker engine
              (w\<lparr>consecutive_failures := consecutive_failures w + 1,
                 scraped_count := scraped_count w + 1, phase := LoopTop\<rparr>) s"
  | keyword suggestions s' where "phase w = Fetched keyword suggestions" and "suggestions \<noteq> []"
      and "add_suggestions cfg env engine suggestions s = (None, s')"
      and "worker_step cfg env engine s =
            set_worker engine
              (w\<lparr>consecutive_failures := 0, scraped_count := scraped_count w + 1,
                 phase := LoopTop\<rparr>) s'"
  | keyword suggestions e s' where "phase w = Fetched keyword suggestions" and "suggestions \<noteq> []"
      and "add_suggestions cfg env engine suggestions s = (Some e, s')"
      and "worker_step cfg env engine s =
            set_worker engine (w\<lparr>consecutive_failures := 0 + 1, phase := LoopTop\<rparr>)
              (s'\<lparr>logged := logged s' @ [ErrorInWorker engine]\<rparr>)"
  | "finished s engine" and "worker_step cfg env engine s = s"
proof (cases "phase w")
  case LoopTop
  show ?thesis
  proof (cases "loop_test cfg s w")
    case False
    have "worker_step cfg env engine s = set_worker engine (w\<lparr>phase := Halted\<rparr>) (after_loop engine w s)"
      using False LoopTop w by (auto simp: worker_step_def loop_test_def)
    then show ?thesis using LoopTop False that(1) by blast
  next
    case True
    show ?thesis
    proof (cases "keyword_queue s")
      case Nil
      have "worker_step cfg env engine s = set_worker engine (w\<lparr>phase := Starved\<rparr>) (after_loop engine w s)"
        using Nil True LoopTop w by (auto simp: worker_step_def loop_test_def)
      then show ?thesis using LoopTop True Nil that(2) by blast
    next
      case (Cons k rest)
      have "worker_step cfg env engine s =
            set_worker engine (w\<lparr>phase := Dequeued k\<rparr>) (s\<lparr>keyword_queue := rest\<rparr>)"
        using Cons True LoopTop w by (auto simp: worker_step_def loop_test_def)
      then show ?thesis using LoopTop True Cons that(3) by blast
    qed
  qed
next
  case (Dequeued k)
  show ?thesis
  proof (cases "k \<in> scraped_keywords s")
    case True
    have "worker_step cfg env engine s = set_worker engine (w\<lparr>phase := LoopTop\<rparr>) s"
      using True Dequeued w by (simp add: worker_step_def)
    then show ?thesis using Dequeued True that(4) by blast
  next
    case False
    have "worker_step cfg env engine s =
            set_worker engine (w\<lparr>phase := Fetching k\<rparr>)
              (s\<lparr>scraped_keywords := insert k (scraped_keywords s)\<rparr>)"
      using False Dequeued w by (simp add: worker_step_def)
    then show ?thesis using Dequeued False that(5) by blast
  qed
next
  case (Fetching k)
  have "worker_step cfg env engine s =
            set_worker engine
              (w\<lparr>phase := Fetched k (answers env engine (length (requests s)) k)\<rparr>)
              (s\<lparr>calls := calls s @ [(engine, k)],
                 requests := requests s @
                   map (Pair engine)
                     (snd (get_suggestions engine (upstream env (length (requests s)) engine) k))\<rparr>)"
    using Fetching w by (simp add: worker_step_def answers_def split: prod.splits)
  then show ?thesis using Fetching that(6) by blast
next
  case (Fetched k sugg)
  show ?thesis
  proof (cases "sugg = []")
    case True
    have "worker_step cfg env engine s =
            set_worker engine
              (w\<lparr>consecutive_failures := consecutive_failures w + 1,
                 scraped_count := scraped_count w + 1, phase := LoopTop\<rparr>) s"
      using True Fetched w by (simp add: worker_step_def)
    then show ?thesis using Fetched True that(7) by blast
  next
    case False
    obtain r s' where a: "add_suggestions cfg env engine sugg s = (r, s')"
      by (cases "add_suggestions cfg env engine sugg s")
    show ?thesis
    proof (cases r)
      case None
      have "worker_step cfg env engine s =
            set_worker engine
              (w\<lparr>consecutive_failures := 0, scraped_count := scraped_count w + 1,
                 phase := LoopTop\<rparr>) s'"
        using None a False Fetched w by (simp add: worker_step_def)
      then show ?thesis using Fetched False a None that(8) by blast
    next
      case (Some e)
      have "worker_step cfg env engine s =
            set_worker engine (w\<lparr>consecutive_failures := 0 + 1, phase := LoopTop\<rparr>)
              (s'\<lparr>logged := logged s' @ [ErrorInWorker engine]\<rparr>)"
        using Some a False Fetched w by (simp add: worker_step_def)
      then show ?thesis using Fetched False a Some that(9) by blast
    qed
  qed
next
  case Starved
  with w that(10) show ?thesis by (simp add: worker_step_def finished_def)
next
  case Halted
  with w that(10) show ?thesis by (simp add: worker_step_def finished_def)
next
  case NoClient
  with w that(10) show ?thesis by (simp add: worker_step_def finished_def)
qed

lemma worker_step_absent: "workers s engine = None \<Longrightarrow> worker_step cfg env engine s = s"
  by (simp add: worker_step_def)

lemma worker_step_finished: "finished s engine \<Longrightarrow> worker_step cfg env engine s = s"
  by (auto simp: worker_step_def finished_def split: option.splits)

lemma after_loop_frame [simp]:
  "workers (after_loop engine w s) = workers s"
  "calls (after_loop engine w s) = calls s"
  "requests (after_loop engine w s) = requests s"
  "stop_event (after_loop engine w s) = stop_event s"
  "scraped_keywords (after_loop engine w s) = scraped_keywords s"
  "keyword_queue (after_loop engine w s) = keyword_queue s"
  by (simp_all add: after_loop_def)

lemma set_worker_frame [simp]:
  "workers (set_worker engine w s) = (workers s)(engine := Some w)"
  "calls (set_worker engine w s) = calls s"
  "requests (set_worker engine w s) = requests s"
  "stop_event (set_worker engine w s) = stop_event s"
  "scraped_keywords (set_worker engine w s) = scraped_keywords s"
  "keyword_queue (set_worker engine w s) = keyword_queue s"
  by (simp_all add: set_worker_def)

lemma calls_by_simps [simp]:
  "calls_by engine (set_worker e w s) = calls_by engine s"
  "calls_by engine (after_loop e w s) = calls_by engine s"
  "calls_by engine (s\<lparr>keyword_queue := q\<rparr>) = calls_by engine s"
  "calls_by engine (s\<lparr>scraped_keywords := k\<rparr>) = calls_by engine s"
  "calls_by engine (s\<lparr>logged := l\<rparr>) = calls_by engine s"
  "calls_by engine (s\<lparr>stop_event := b\<rparr>) = calls_by engine s"
  by (simp_all add: calls_by_def)

lemma calls_by_append [simp]:
  "calls_by engine (s\<lparr>calls := calls s @ [(e, k)], requests := r\<rparr>) =
     (if e = engine then Suc (calls_by engine s) else calls_by engine s)"
  by (simp add: calls_by_def)

lemma worker_step_fetching:
  "workers s engine = Some w \<Longrightarrow> phase w = Fetching keyword \<Longrightarrow>
   worker_step cfg env engine s =
     set_worker engine
       (w\<lparr>phase := Fetched keyword (answers env engine (length (requests s)) keyword)\<rparr>)
       (s\<lparr>calls := calls s @ [(engine, keyword)],
          requests := requests s @
            map (Pair engine)
              (snd (get_suggestions engine (upstream env (length (requests s)) engine) keyword))\<rparr>)"
  by (simp add: worker_step_def answers_def split: prod.splits)

lemma worker_step_fetched_empty:
  "workers s engine = Some w \<Longrightarrow> phase w = Fetched keyword [] \<Longrightarrow>
   worker_step cfg env engine s =
     set_worker engine
       (w\<lparr>consecutive_failures := consecutive_failures w + 1,
          scraped_count := scraped_count w + 1, phase := LoopTop\<rparr>) s"
  by (simp add: worker_step_def)

lemma worker_step_empty_queue:
  assumes "workers s engine = Some w" and "phase w = LoopTop" and "keyword_queue s = []"
  shows "workers (worker_step cfg env engine s) engine
     = Some (w\<lparr>phase := (if loop_test cfg s w then Starved else Halted)\<rparr>)"
  using assms by (simp add: worker_step_def loop_test_def)


lemma worker_step_other:
  assumes "other \<noteq> engine"
  shows "workers (worker_step cfg env other s) engine = workers s engine"
    and "calls_by engine (worker_step cfg env other s) = calls_by engine s"
proof -
  have "workers (worker_step cfg env other s) engine = workers s engine
      \<and> calls_by engine (worker_step cfg env other s) = calls_by engine s"
  proof (cases "workers s other")
    case None
    then show ?thesis by (simp add: worker_step_absent)
  next
    case (Some w)
    then show ?thesis
      using assms
      by (cases rule: worker_step_cases [where cfg = cfg and env = env])
         (auto dest: add_suggestions_frame simp: calls_by_def)
  qed
  then show "workers (worker_step cfg env other s) engine = workers s engine"
    and "calls_by engine (worker_step cfg env other s) = calls_by engine s"
    by simp_all
qed

text \<open>A worker that has returned stays as it is.\<close>

lemma finished_event:
  assumes "finished s engine"
  shows "workers (apply_event cfg env ev s) engine = workers s engine
    \<and> calls_by engine (apply_event cfg env ev s) = calls_by engine s"
proof (cases ev)
  case (Step other)
  show ?thesis
  proof (cases "other = engine")
    case True
    with Step assms show ?thesis by (simp add: worker_step_finished)
  next
    case False
    with Step show ?thesis by (simp add: worker_step_other [OF False])
  qed
next
  case KeyboardInterrupt
  then show ?thesis by simp
qed

lemma finished_run:
  "finished s engine \<Longrightarrow>
   workers (run cfg env events s) engine = workers s engine
   \<and> calls_by engine (run cfg env events s) = calls_by engine s"
proof (induction events arbitrary: s)
  case Nil
  then show ?case by simp
next
  case (Cons ev events)
  from finished_event [OF Cons.prems, of cfg env ev]
  have w: "workers (apply_event cfg env ev s) engine = workers s engine"
    and c: "calls_by engine (apply_event cfg env ev s) = calls_by engine s"
    by simp_all
  from w Cons.prems have "finished (apply_event cfg env ev s) engine"
    by (simp add: finished_def)
  from Cons.IH [OF this] w c show ?case by simp
qed

lemma start_scraping_calls [simp]:
  "calls (start_scraping cfg env selected clients input) = []"
  by (simp add: start_scraping_def new_app_def Let_def)

lemma calls_by_start [simp]: "calls_by engine (start_scraping cfg env selected clients input) = 0"
  by (simp add: calls_by_def)

lemma start_scraping_workers:
  "workers (start_scraping cfg env selected clients input) engine = Some w \<Longrightarrow>
   scraped_count w = 0 \<and> consecutive_failures w = 0 \<and> (phase w = LoopTop \<or> phase w = NoClient)"
  by (auto simp: start_scraping_def new_app_def new_worker_def Let_def split: if_splits)

section \<open>Sources\<close>


lemma try_suggestions_failed: "try_suggestions engine Failed keyword = Inl RequestException"
  by (simp add: try_suggestions_def)

lemma try_suggestions_undecodable:
  "engine \<noteq> EBAY \<Longrightarrow> try_suggestions engine (Response None groups) keyword = Inl JSONDecodeError"
  by (cases engine) (simp_all add: try_suggestions_def json_client_def decode_def)

lemma get_suggestions_raised:
  "try_suggestions engine (net (strip keyword)) keyword = Inl err \<Longrightarrow>
   fst (get_suggestions engine net keyword) = []"
  by (simp add: get_suggestions_def)

lemma google_body_text: "google_body keyword data = Inr ys \<Longrightarrow> x \<in> set ys \<Longrightarrow> is_str x"
  by (auto simp: google_body_def split: sum.splits if_splits json.splits dest: in_set_takeD)

lemma ebay_matches_text: "x \<in> set (ebay_matches keyword ms) \<Longrightarrow> is_str x"
  by (induction ms) (auto simp: Let_def is_str_def split: if_splits)

text \<open>The Google, YouTube and eBay clients return text whatever the server sends.\<close>

lemma filtering_clients_text_only:
  assumes "engine = GOOGLE \<or> engine = YOUTUBE \<or> engine = EBAY"
  shows "text_only env engine"
proof -
  have "\<forall>x \<in> set ys. is_str x" if "try_suggestions engine response keyword = Inr ys"
    for response keyword ys
    using that assms
    by (auto simp: try_suggestions_def json_client_def
        split: http_result.splits sum.splits
        dest: google_body_text ebay_matches_text dest!: in_set_takeD)
  then show ?thesis
    by (auto simp: text_only_def answers_def get_suggestions_def split: sum.splits)
qed

section \<open>An invalid keyword at the client\<close>

lemma invalid_keyword:
  "strip keyword = [] \<or> 200 < length (strip keyword) \<Longrightarrow> \<not> validate_keyword keyword"
  by (auto simp: validate_keyword_def)

lemma get_suggestions_invalid:
  "\<not> validate_keyword keyword \<Longrightarrow> get_suggestions engine net keyword = ([], [])"
  by (simp add: get_suggestions_def)

lemma get_suggestions_failed:
  "validate_keyword keyword \<Longrightarrow>
   get_suggestions engine (\<lambda>q. Failed) keyword = ([], [strip keyword])"
  by (simp add: get_suggestions_def try_suggestions_def)

text \<open>
  Claim C10. For a keyword whose trimmed text is empty or longer than 200 characters,
  \<^verbatim>\<open>get_suggestions\<close> of every engine returns the empty list and sends no query. The
  list is the one a failed request gives (for any keyword \<open>other\<close>), and a worker that
  holds such a keyword ends the round with one more consecutive failure, one more counted
  keyword and no request sent.
\<close>

theorem invalid_keyword_counts_as_failure:
  assumes "strip keyword = [] \<or> 200 < length (strip keyword)"
  shows "get_suggestions engine net keyword = ([], [])
    \<and> fst (get_suggestions engine net keyword) = fst (get_suggestions engine (\<lambda>q. Failed) other)
    \<and> (workers s engine = Some w \<and> phase w = Fetching keyword \<longrightarrow>
         workers (worker_step cfg env engine (worker_step cfg env engine s)) engine =
           Some (w\<lparr>consecutive_failures := consecutive_failures w + 1,
                   scraped_count := scraped_count w + 1, phase := LoopTop\<rparr>)
         \<and> requests (worker_step cfg env engine (worker_step cfg env engine s)) = requests s)"
proof -
  have inv: "\<not> validate_keyword keyword" using assms by (rule invalid_keyword)
  have g: "get_suggestions engine net keyword = ([], [])" for net
    using inv by (rule get_suggestions_invalid)
  have f: "fst (get_suggestions engine (\<lambda>q. Failed) other) = []"
    by (cases "validate_keyword other") (simp_all add: get_suggestions_invalid get_suggestions_failed)
  have w: "workers (worker_step cfg env engine (worker_step cfg env engine s)) engine =
           Some (w\<lparr>consecutive_failures := consecutive_failures w + 1,
                   scraped_count := scraped_count w + 1, phase := LoopTop\<rparr>)
         \<and> requests (worker_step cfg env engine (worker_step cfg env engine s)) = requests s"
    if a: "workers s engine = Some w" and b: "phase w = Fetching keyword"
  proof -
    let ?s1 = "worker_step cfg env engine s"
    have s1: "?s1 = set_worker engine (w\<lparr>phase := Fetched keyword []\<rparr>)
                (s\<lparr>calls := calls s @ [(engine, keyword)], requests := requests s\<rparr>)"
      using worker_step_fetching [OF a b, of cfg env] by (simp add: g answers_def)
    have w1: "workers ?s1 engine = Some (w\<lparr>phase := Fetched keyword []\<rparr>)"
      by (simp add: s1 set_worker_def)
    have "worker_step cfg env engine ?s1 =
       set_worker engine
         ((w\<lparr>phase := Fetched keyword []\<rparr>)
            \<lparr>consecutive_failures := consecutive_failures (w\<lparr>phase := Fetched keyword []\<rparr>) + 1,
             scraped_count := scraped_count (w\<lparr>phase := Fetched keyword []\<rparr>) + 1,
             phase := LoopTop\<rparr>) ?s1"
      by (rule worker_step_fetched_empty [OF w1]) simp
    then show ?thesis
      by (simp add: set_worker_def s1)
  qed
  show ?thesis using g f w by simp
qed

theorem invalid_keyword_counts_as_failure_witness:
  "(strip (lit ''  '') = [] \<or> 200 < length (strip (lit ''  '')))
   \<and> get_suggestions GOOGLE (upstream offline 0 GOOGLE) (lit ''  '') = ([], [])
   \<and> workers blank_in_hand GOOGLE
       = Some \<lparr>scraped_count = 0, consecutive_failures = 0, phase = Fetching (lit ''  '')\<rparr>
   \<and> workers (worker_step default_config offline GOOGLE
                (worker_step default_config offline GOOGLE blank_in_hand)) GOOGLE
       = Some \<lparr>scraped_count = 1, consecutive_failures = 1, phase = LoopTop\<rparr>
   \<and> requests (worker_step default_config offline GOOGLE
                (worker_step default_config offline GOOGLE blank_in_hand)) = []"
proof -
  have h: "strip (lit ''  '') = [] \<or> 200 < length (strip (lit ''  ''))"
    by code_simp
  have w: "workers blank_in_hand GOOGLE
       = Some \<lparr>scraped_count = 0, consecutive_failures = 0, phase = Fetching (lit ''  '')\<rparr>"
    by (simp add: blank_in_hand_def)
  show ?thesis
    using h w
      invalid_keyword_counts_as_failure [OF h, of GOOGLE "upstream offline 0 GOOGLE" "(lit ''x'')"
        blank_in_hand "\<lparr>scraped_count = 0, consecutive_failures = 0, phase = Fetching (lit ''  '')\<rparr>"
        default_config offline]
    by (simp add: blank_in_hand_def new_app_def)
qed

section \<open>Each keyword is queried once\<close>

lemma once_inv_step:
  assumes "once_inv s"
  shows "once_inv (worker_step cfg env engine s)"
proof (cases "workers s engine")
  case None
  with assms show ?thesis by (simp add: worker_step_absent)
next
  case (Some w)
  then show ?thesis
  proof (cases rule: worker_step_cases [where cfg = cfg and env = env])
    case leave
    with assms Some show ?thesis by (auto simp: once_inv_def)
  next
    case starve
    with assms Some show ?thesis by (auto simp: once_inv_def)
  next
    case (dequeue keyword rest)
    with assms Some show ?thesis by (auto simp: once_inv_def)
  next
    case (skip keyword)
    with assms Some show ?thesis by (auto simp: once_inv_def)
  next
    case (admit keyword)
    from assms have d: "distinct (map snd (calls s))"
      and sub: "snd ` set (calls s) \<subseteq> scraped_keywords s"
      and f: "\<And>e w k. workers s e = Some w \<Longrightarrow> phase w = Fetching k \<Longrightarrow>
            k \<in> scraped_keywords s \<and> k \<notin> snd ` set (calls s)"
      and u: "\<And>e e' w w' k. workers s e = Some w \<Longrightarrow> phase w = Fetching k \<Longrightarrow>
            workers s e' = Some w' \<Longrightarrow> phase w' = Fetching k \<Longrightarrow> e = e'"
      unfolding once_inv_def by blast+
    from sub admit(2) have fresh: "keyword \<notin> snd ` set (calls s)" by blast
    show ?thesis
      unfolding once_inv_def admit(3)
      using d sub fresh f u admit(2)
      by (auto split: if_splits simp: image_iff) (metis snd_conv)+
  next
    case (call keyword)
    from assms have d: "distinct (map snd (calls s))"
      and sub: "snd ` set (calls s) \<subseteq> scraped_keywords s"
      and f: "\<And>e w k. workers s e = Some w \<Longrightarrow> phase w = Fetching k \<Longrightarrow>
            k \<in> scraped_keywords s \<and> k \<notin> snd ` set (calls s)"
      and u: "\<And>e e' w w' k. workers s e = Some w \<Longrightarrow> phase w = Fetching k \<Longrightarrow>
            workers s e' = Some w' \<Longrightarrow> phase w' = Fetching k \<Longrightarrow> e = e'"
      unfolding once_inv_def by blast+
    from f [OF Some call(1)] have k: "keyword \<in> scraped_keywords s" "keyword \<notin> snd ` set (calls s)"
      by simp_all
    have other: "k \<noteq> keyword" if "workers s e = Some w'" "phase w' = Fetching k" "e \<noteq> engine" for e w' k
      using u [OF that(1) that(2) Some] call(1) that(3) by auto
    show ?thesis
      unfolding once_inv_def call(2)
      using d sub k f u other
      by (auto split: if_splits simp: image_iff) (metis snd_conv)+
  next
    case (failure keyword)
    with assms Some show ?thesis by (auto simp: once_inv_def)
  next
    case (added keyword suggestions s')
    from add_suggestions_frame [OF added(3)] assms Some added(1) show ?thesis
      unfolding once_inv_def added(4) by (auto split: if_splits)
  next
    case (raised keyword suggestions e s')
    from add_suggestions_frame [OF raised(3)] assms Some raised(1) show ?thesis
      unfolding once_inv_def raised(4) by (auto split: if_splits)
  next
    case idle
    with assms show ?thesis by simp
  qed
qed

lemma once_inv_event: "once_inv s \<Longrightarrow> once_inv (apply_event cfg env ev s)"
  by (cases ev) (simp_all add: once_inv_step, simp add: once_inv_def)

lemma once_inv_run: "once_inv s \<Longrightarrow> once_inv (run cfg env events s)"
  by (induction events arbitrary: s) (simp_all add: once_inv_event)

lemma once_inv_start: "once_inv (start_scraping cfg env selected clients input)"
  unfolding once_inv_def
  by (auto dest: start_scraping_workers)

text \<open>
  Claim C1, as amended. In every run each keyword text is passed to a client at most once:
  the test-and-insert on \<^verbatim>\<open>scraped_keywords\<close> is made when a worker has taken the keyword
  from the queue, and a keyword already in the set is skipped. (It is not made before a
  keyword is put on the queue: the seeds are put there unchecked.)
\<close>

theorem each_keyword_queried_once:
  "distinct (map snd (calls (run cfg env events (start_scraping cfg env selected clients input))))"
  using once_inv_run [OF once_inv_start] by (simp add: once_inv_def)

text \<open>The seed line \<^verbatim>\<open>shoes, shoes\<close> puts the same keyword on the queue twice.\<close>

theorem seeds_enqueued_twice:
  "\<not> distinct (keyword_queue
       (start_scraping default_config offline [GOOGLE] {GOOGLE} (Typed (lit ''shoes, shoes''))))"
  by code_simp

section \<open>A suggestion found twice\<close>

text \<open>
  Claim C2 at a run of the code. Seeds \<^verbatim>\<open>widget, gadget\<close>, workers for Google and
  YouTube, each source answering \<^verbatim>\<open>blue widget\<close>: Google's worker takes \<^verbatim>\<open>widget\<close>,
  YouTube's takes \<^verbatim>\<open>gadget\<close>, and each saves \<^verbatim>\<open>blue widget\<close>, which is on the
  terminal and in the output file twice.
\<close>

theorem same_suggestion_saved_twice:
  "terminal widget_run = [(lit ''blue widget''), (lit ''blue widget'')]
   \<and> file_lines widget_run = [(lit ''blue widget''), (lit ''blue widget'')]
   \<and> calls widget_run = [(GOOGLE, (lit ''widget'')), (YOUTUBE, (lit ''gadget''))]"
  unfolding widget_run_def by code_simp

section \<open>The cap on keywords per engine\<close>

text \<open>
  Claim C4 at two runs of the code, both under a cap of one keyword per engine and with the
  seeds \<^verbatim>\<open>a, b, c\<close>. Amazon's source answers every query with the number 5 as its one
  suggestion: the client passes it on, \<^verbatim>\<open>suggestion.strip()\<close> raises in the worker, and
  the round ends in the handler, which does not count the keyword. Google's source answers
  every query with a lone surrogate: \<^verbatim>\<open>print\<close> in \<^verbatim>\<open>_save_keyword\<close> raises, with the
  same end. After three rounds either worker has queried three keywords, its count is 0, and
  it is back at the loop test, which it passes.
\<close>

theorem cap_exceeded_by_uncounted_rounds:
  "max_keywords_per_engine tiny_cap = 1
   \<and> answers (amazon_answering [JNum 5]) AMAZON 0 (lit ''a'') = [JNum 5]
   \<and> calls uncounted_run = [(AMAZON, lit ''a''), (AMAZON, lit ''b''), (AMAZON, lit ''c'')]
   \<and> workers uncounted_run AMAZON
       = Some \<lparr>scraped_count = 0, consecutive_failures = 1, phase = LoopTop\<rparr>
   \<and> loop_test tiny_cap uncounted_run \<lparr>scraped_count = 0, consecutive_failures = 1, phase = LoopTop\<rparr>
   \<and> answers (suggesting [lone_surrogate]) GOOGLE 0 (lit ''a'') = [JStr lone_surrogate]
   \<and> calls unprinted_run = [(GOOGLE, lit ''a''), (GOOGLE, lit ''b''), (GOOGLE, lit ''c'')]
   \<and> workers unprinted_run GOOGLE
       = Some \<lparr>scraped_count = 0, consecutive_failures = 1, phase = LoopTop\<rparr>
   \<and> loop_test tiny_cap unprinted_run \<lparr>scraped_count = 0, consecutive_failures = 1, phase = LoopTop\<rparr>"
  unfolding uncounted_run_def unprinted_run_def by code_simp

section \<open>Consecutive failures\<close>

text \<open>
  Claim C6 at a run of the code. Amazon's worker, seeds \<^verbatim>\<open>a, b, c\<close>: the queries for
  \<^verbatim>\<open>a\<close> and \<^verbatim>\<open>b\<close> fail and leave the failure counter at 2; the query for \<^verbatim>\<open>c\<close>
  succeeds with the suggestions \<^verbatim>\<open>"ok"\<close> and 5. The counter is reset, \<^verbatim>\<open>ok\<close> is queued
  and saved, \<^verbatim>\<open>suggestion.strip()\<close> raises on the number, and the handler adds one to the
  counter: after the successful query it is 1, not 0, and the keyword is not counted.
\<close>

theorem successful_query_counted_as_failure:
  "answers (answering_c [JStr (lit ''ok''), JNum 5]) AMAZON 2 (lit ''c'') = [JStr (lit ''ok''), JNum 5]
   \<and> workers two_failures_run AMAZON
       = Some \<lparr>scraped_count = 2, consecutive_failures = 2, phase = LoopTop\<rparr>
   \<and> calls two_failures_run = [(AMAZON, lit ''a''), (AMAZON, lit ''b'')]
   \<and> workers success_run AMAZON
       = Some \<lparr>scraped_count = 2, consecutive_failures = 1, phase = LoopTop\<rparr>
   \<and> calls success_run = [(AMAZON, lit ''a''), (AMAZON, lit ''b''), (AMAZON, lit ''c'')]
   \<and> keyword_queue success_run = [lit ''ok'']
   \<and> terminal success_run = [lit ''ok'']
   \<and> logged success_run = [ErrorInWorker AMAZON]"
  unfolding two_failures_run_def success_run_def by code_simp

section \<open>A source whose every query fails\<close>











section \<open>Every worker leaves its loop\<close>

lemma google_body_length: "google_body keyword data = Inr ys \<Longrightarrow> length ys \<le> 20"
  by (auto simp: google_body_def split: sum.splits if_splits json.splits)

lemma bing_body_length: "bing_body keyword data = Inr ys \<Longrightarrow> length ys \<le> 20"
  by (auto simp: bing_body_def split: sum.splits if_splits)

lemma keyed_body_length: "keyed_body outer inner keyword data = Inr ys \<Longrightarrow> length ys \<le> 20"
  by (auto simp: keyed_body_def split: sum.splits if_splits)

lemma ddg_body_length: "ddg_body keyword data = Inr ys \<Longrightarrow> length ys \<le> 20"
  by (auto simp: ddg_body_def split: json.splits if_splits)

lemma try_suggestions_length: "try_suggestions engine response keyword = Inr ys \<Longrightarrow> length ys \<le> 20"
  by (cases engine)
     (auto simp: try_suggestions_def json_client_def amazon_body_def yahoo_body_def
        split: http_result.splits sum.splits
        dest: google_body_length bing_body_length keyed_body_length ddg_body_length)

lemma answers_length: "length (answers env engine n keyword) \<le> 20"
  by (auto simp: answers_def get_suggestions_def split: sum.splits dest: try_suggestions_length)

lemma load_update:
  assumes "workers s' = (workers s)(engine := Some w')" and "workers s engine = Some w"
  shows "load s' + weight w = load s + weight w'"
  using assms by (cases engine) (simp_all add: load_def all_engines_def)

lemma potential_set_worker:
  assumes "workers s engine = Some w" and "workers s' = workers s"
  shows "potential universe (set_worker engine w' s') + weight w + 4 * length (keyword_queue s)
           + 84 * card (universe - scraped_keywords s)
       = potential universe s + weight w' + 4 * length (keyword_queue s')
           + 84 * card (universe - scraped_keywords s')"
proof -
  have "workers (set_worker engine w' s') = (workers s)(engine := Some w')"
    using assms(2) by simp
  from load_update [OF this assms(1)] show ?thesis
    by (simp add: potential_def)
qed

lemma card_admit:
  assumes "finite universe" and "k \<in> universe" and "k \<notin> scraped"
  shows "card (universe - scraped) = Suc (card (universe - insert k scraped))"
proof -
  have "universe - scraped = insert k (universe - insert k scraped)"
    using assms(2,3) by auto
  moreover have "k \<notin> universe - insert k scraped" by simp
  moreover have "finite (universe - insert k scraped)" using assms(1) by simp
  ultimately show ?thesis by (metis card_insert_disjoint)
qed

text \<open>The keywords of a run stay within the universe when the sources suggest nothing else.\<close>

lemma within_step:
  assumes a: "\<And>n keyword t. JStr t \<in> set (answers env engine n keyword) \<Longrightarrow> strip t \<noteq> []
                \<Longrightarrow> t \<in> universe"
    and i: "within universe s"
  shows "within universe (worker_step cfg env engine s)"
proof (cases "workers s engine")
  case None
  with i show ?thesis by (simp add: worker_step_absent)
next
  case (Some w)
  from i have q: "set (keyword_queue s) \<subseteq> universe"
    and d: "\<And>e w k. workers s e = Some w \<Longrightarrow> phase w = Dequeued k \<Longrightarrow> k \<in> universe"
    and f: "\<And>e w k xs t. workers s e = Some w \<Longrightarrow> phase w = Fetched k xs \<Longrightarrow>
              JStr t \<in> set xs \<Longrightarrow> strip t \<noteq> [] \<Longrightarrow> t \<in> universe"
    unfolding within_def by blast+
  from Some show ?thesis
  proof (cases rule: worker_step_cases [where cfg = cfg and env = env])
    case leave
    show ?thesis
      unfolding within_def leave(3) using q d f by (auto split: if_splits)
  next
    case starve
    show ?thesis
      unfolding within_def starve(4) using q d f by (auto split: if_splits)
  next
    case (dequeue keyword rest)
    show ?thesis
      unfolding within_def dequeue(4) using q d f dequeue(3) by (auto split: if_splits)
  next
    case (skip keyword)
    show ?thesis
      unfolding within_def skip(3) using q d f by (auto split: if_splits)
  next
    case (admit keyword)
    show ?thesis
      unfolding within_def admit(3) using q d f by (auto split: if_splits)
  next
    case (call keyword)
    show ?thesis
      unfolding within_def call(2) using q d f a by (auto split: if_splits)
  next
    case (failure keyword)
    show ?thesis
      unfolding within_def failure(2) using q d f by (auto split: if_splits)
  next
    case (added keyword suggestions s')
    from add_suggestions_frame [OF added(3)] have w: "workers s' = workers s" by simp
    have "set (keyword_queue s') \<subseteq> universe"
      using add_suggestions_within [OF added(3)] q f [OF Some added(1)] by auto
    then show ?thesis
      unfolding within_def added(4) using d f w by (auto split: if_splits)
  next
    case (raised keyword suggestions e s')
    from add_suggestions_frame [OF raised(3)] have w: "workers s' = workers s" by simp
    have "set (keyword_queue s') \<subseteq> universe"
      using add_suggestions_within [OF raised(3)] q f [OF Some raised(1)] by auto
    then show ?thesis
      unfolding within_def raised(4) using d f w by (auto split: if_splits)
  next
    case idle
    with i show ?thesis by simp
  qed
qed

lemma within_event:
  assumes "\<And>n engine keyword t. JStr t \<in> set (answers env engine n keyword) \<Longrightarrow> strip t \<noteq> []
                \<Longrightarrow> t \<in> universe"
    and "within universe s"
  shows "within universe (apply_event cfg env ev s)"
proof (cases ev)
  case (Step engine)
  from within_step [of env engine universe s cfg] assms Step show ?thesis by simp
next
  case KeyboardInterrupt
  with assms(2) show ?thesis unfolding within_def by simp blast
qed

lemma within_start:
  "within (set (get_seed_keywords input)) (start_scraping cfg env selected clients input)"
  unfolding within_def
  by (auto simp: start_scraping_def new_app_def new_worker_def Let_def split: if_splits)

text \<open>Every step of a worker that has not returned lowers the bound.\<close>

lemma worker_step_decreases:
  assumes fin: "finite universe" and i: "within universe s" and n: "\<not> finished s engine"
  shows "potential universe (worker_step cfg env engine s) < potential universe s"
proof (cases "workers s engine")
  case None
  with n show ?thesis by (simp add: finished_def)
next
  case (Some w)
  then show ?thesis
  proof (cases rule: worker_step_cases [where cfg = cfg and env = env])
    case leave
    have "weight w = 1" "weight (w\<lparr>phase := Halted\<rparr>) = 0"
      using leave(1) by (simp_all add: weight_def)
    with potential_set_worker [OF Some, of "after_loop engine w s" universe "w\<lparr>phase := Halted\<rparr>"]
    show ?thesis by (simp add: leave(3))
  next
    case starve
    have "weight w = 1" "weight (w\<lparr>phase := Starved\<rparr>) = 0"
      using starve(1) by (simp_all add: weight_def)
    with potential_set_worker [OF Some, of "after_loop engine w s" universe "w\<lparr>phase := Starved\<rparr>"]
    show ?thesis by (simp add: starve(4))
  next
    case (dequeue keyword rest)
    have "weight w = 1" "weight (w\<lparr>phase := Dequeued keyword\<rparr>) = 4"
      using dequeue(1) by (simp_all add: weight_def)
    with potential_set_worker [OF Some, of "s\<lparr>keyword_queue := rest\<rparr>" universe "w\<lparr>phase := Dequeued keyword\<rparr>"]
    show ?thesis by (simp add: dequeue(3,4))
  next
    case (skip keyword)
    have "weight w = 4" "weight (w\<lparr>phase := LoopTop\<rparr>) = 1"
      using skip(1) by (simp_all add: weight_def)
    with potential_set_worker [OF Some, of s universe "w\<lparr>phase := LoopTop\<rparr>"]
    show ?thesis by (simp add: skip(3))
  next
    case (admit keyword)
    from i Some admit(1) have "keyword \<in> universe"
      unfolding within_def by blast
    from card_admit [OF fin this admit(2)]
    have c: "card (universe - scraped_keywords s)
        = Suc (card (universe - insert keyword (scraped_keywords s)))" .
    have "weight w = 4" "weight (w\<lparr>phase := Fetching keyword\<rparr>) = 83"
      using admit(1) by (simp_all add: weight_def)
    with potential_set_worker [OF Some,
        of "s\<lparr>scraped_keywords := insert keyword (scraped_keywords s)\<rparr>" universe
          "w\<lparr>phase := Fetching keyword\<rparr>"] c
    show ?thesis by (simp add: admit(3))
  next
    case (call keyword)
    let ?w' = "w\<lparr>phase := Fetched keyword (answers env engine (length (requests s)) keyword)\<rparr>"
    let ?s' = "s\<lparr>calls := calls s @ [(engine, keyword)],
                 requests := requests s @
                   map (Pair engine)
                     (snd (get_suggestions engine (upstream env (length (requests s)) engine) keyword))\<rparr>"
    have "weight w = 83" "weight ?w' \<le> 82"
      using call(1) answers_length [of env engine "length (requests s)" keyword]
      by (simp_all add: weight_def)
    with potential_set_worker [OF Some, of ?s' universe ?w']
    show ?thesis by (simp add: call(2))
  next
    case (failure keyword)
    let ?w' = "w\<lparr>consecutive_failures := consecutive_failures w + 1,
                 scraped_count := scraped_count w + 1, phase := LoopTop\<rparr>"
    have "weight w = 2" "weight ?w' = 1"
      using failure(1) by (simp_all add: weight_def)
    with potential_set_worker [OF Some, of s universe ?w']
    show ?thesis by (simp add: failure(2))
  next
    case (added keyword suggestions s')
    let ?w' = "w\<lparr>consecutive_failures := 0, scraped_count := scraped_count w + 1, phase := LoopTop\<rparr>"
    from add_suggestions_frame [OF added(3)]
    have f: "workers s' = workers s" and k: "scraped_keywords s' = scraped_keywords s" by simp_all
    have "weight w = 2 + 4 * length suggestions" "weight ?w' = 1"
      using added(1) by (simp_all add: weight_def)
    with potential_set_worker [OF Some f, of universe ?w'] add_suggestions_queue [OF added(3)] k
    show ?thesis by (simp add: added(4))
  next
    case (raised keyword suggestions e s')
    let ?w' = "w\<lparr>consecutive_failures := 0 + 1, phase := LoopTop\<rparr>"
    let ?s' = "s'\<lparr>logged := logged s' @ [ErrorInWorker engine]\<rparr>"
    from add_suggestions_frame [OF raised(3)]
    have f: "workers ?s' = workers s" and k: "scraped_keywords ?s' = scraped_keywords s" by simp_all
    have "weight w = 2 + 4 * length suggestions" "weight ?w' = 1"
      using raised(1) by (simp_all add: weight_def)
    with potential_set_worker [OF Some f, of universe ?w'] add_suggestions_queue [OF raised(3)] k
    show ?thesis by (simp add: raised(4))
  next
    case idle
    with n show ?thesis by simp
  qed
qed

lemma apply_event_potential:
  assumes "finite universe" and "within universe s"
  shows "potential universe (apply_event cfg env ev s) \<le> potential universe s"
proof (cases ev)
  case (Step engine)
  show ?thesis
  proof (cases "finished s engine")
    case True
    with Step show ?thesis by (simp add: worker_step_finished)
  next
    case False
    from worker_step_decreases [OF assms False, of cfg env] Step show ?thesis by simp
  qed
next
  case KeyboardInterrupt
  then show ?thesis by (simp add: potential_def load_def)
qed

text \<open>So the steps a worker takes before it has returned are counted by the bound.\<close>

lemma steps_bounded:
  assumes a: "\<And>n engine keyword t. JStr t \<in> set (answers env engine n keyword) \<Longrightarrow> strip t \<noteq> []
                \<Longrightarrow> t \<in> universe"
    and fin: "finite universe"
  shows "within universe s \<Longrightarrow> \<not> finished (run cfg env events s) engine \<Longrightarrow>
    count_list events (Step engine) + potential universe (run cfg env events s) \<le> potential universe s"
proof (induction events arbitrary: s)
  case Nil
  then show ?case by simp
next
  case (Cons ev events)
  let ?s1 = "apply_event cfg env ev s"
  have i1: "within universe ?s1"
    using a Cons.prems(1) by (rule within_event)
  have nf: "\<not> finished (run cfg env events ?s1) engine"
    using Cons.prems(2) by simp
  from Cons.IH [OF i1 nf]
  have ih: "count_list events (Step engine) + potential universe (run cfg env events ?s1)
      \<le> potential universe ?s1" .
  have le: "potential universe ?s1 \<le> potential universe s"
    using fin Cons.prems(1) by (rule apply_event_potential)
  show ?case
  proof (cases "ev = Step engine")
    case True
    have "\<not> finished s engine"
    proof
      assume f: "finished s engine"
      from finished_run [OF f, of cfg env "ev # events"] f
      have "finished (run cfg env (ev # events) s) engine"
        by (simp add: finished_def)
      with Cons.prems(2) show False by simp
    qed
    from worker_step_decreases [OF fin Cons.prems(1) this, of cfg env] True
    have "potential universe ?s1 < potential universe s" by simp
    with ih True show ?thesis by simp
  next
    case False
    with ih le show ?thesis by simp
  qed
qed

lemma sum_list_bounded: "(\<And>x. f x \<le> (c::nat)) \<Longrightarrow> sum_list (map f xs) \<le> length xs * c"
  by (induction xs) (simp_all add: add_mono)

lemma start_scraping_queue:
  "length (keyword_queue (start_scraping cfg env selected clients input))
     \<le> length (get_seed_keywords input)"
  by (simp add: start_scraping_def new_app_def Let_def)

lemma start_scraping_weight:
  "(case workers (start_scraping cfg env selected clients input) engine of
      None \<Rightarrow> 0 | Some w \<Rightarrow> weight w) \<le> 1"
proof (cases "workers (start_scraping cfg env selected clients input) engine")
  case None
  then show ?thesis by simp
next
  case (Some w)
  from start_scraping_workers [OF this] Some show ?thesis
    by (auto simp: weight_def)
qed

lemma potential_start:
  "potential (set (get_seed_keywords input)) (start_scraping cfg env selected clients input)
     \<le> finishing_bound input"
proof -
  have "load (start_scraping cfg env selected clients input) \<le> length all_engines * 1"
    unfolding load_def by (rule sum_list_bounded) (rule start_scraping_weight)
  moreover have "card (set (get_seed_keywords input)
      - scraped_keywords (start_scraping cfg env selected clients input))
      \<le> length (get_seed_keywords input)"
    by (rule order_trans [OF card_mono card_length]) auto
  ultimately show ?thesis
    using start_scraping_queue [of cfg env selected clients input]
    by (simp add: potential_def finishing_bound_def all_engines_def)
qed

lemma count_list_replicate: "count_list (replicate n x) x = n"
  by (induction n) simp_all

text \<open>
  A source that answers every query with a number, in Amazon's format, returns no new
  suggestion through any client.
\<close>

lemma amazon_answering_number: "no_new_suggestions (amazon_answering [JNum 5]) input"
proof -
  have "JStr t \<notin> set (answers (amazon_answering [JNum 5]) engine n keyword)" for t engine n keyword
    by (cases engine)
       (auto simp: answers_def get_suggestions_def try_suggestions_def json_client_def decode_def
          amazon_answering_def google_body_def bing_body_def amazon_body_def yahoo_body_def
          keyed_body_def ddg_body_def pick_def py_len_def py_index1_def py_contains_def
          py_getitem_def py_iter_def
          split: sum.splits if_splits)
  then show ?thesis by (simp add: no_new_suggestions_def)
qed

text \<open>
  Claim C5. With sources that return no new suggestions, every interleaving of the threads
  brings each worker out of its loop, whatever else the sources return, whether the disk and
  the terminal work, and with or without Ctrl+C: a worker that has been given more than
  \<open>finishing_bound\<close> steps, a number fixed by the seeds, has returned. A worker that finds
  the queue empty at the loop test leaves the loop at that step: by \<^verbatim>\<open>break\<close>
  (\<open>Starved\<close>) when the loop test holds, by the test otherwise.
\<close>

theorem every_worker_finishes:
  assumes "no_new_suggestions env input"
  shows "(\<forall>engine. finishing_bound input < count_list events (Step engine) \<longrightarrow>
            finished (run cfg env events (start_scraping cfg env selected clients input)) engine)
    \<and> (\<forall>engine s w. workers s engine = Some w \<and> phase w = LoopTop \<and> keyword_queue s = [] \<longrightarrow>
            workers (worker_step cfg env engine s) engine
              = Some (w\<lparr>phase := (if loop_test cfg s w then Starved else Halted)\<rparr>))"
proof -
  let ?s0 = "start_scraping cfg env selected clients input"
  let ?U = "set (get_seed_keywords input)"
  have n: "t \<in> ?U" if "JStr t \<in> set (answers env engine n keyword)" "strip t \<noteq> []"
    for n engine keyword t
    using assms that unfolding no_new_suggestions_def by blast
  have a: "finished (run cfg env events ?s0) engine"
    if "finishing_bound input < count_list events (Step engine)" for engine
  proof (rule ccontr)
    assume "\<not> finished (run cfg env events ?s0) engine"
    from steps_bounded [of env ?U ?s0 cfg events engine, OF n _ within_start this]
      potential_start [of input cfg env selected clients] that
    show False by simp
  qed
  from a worker_step_empty_queue show ?thesis by blast
qed

theorem every_worker_finishes_witness:
  "no_new_suggestions (amazon_answering [JNum 5]) (Typed (lit ''a, b''))
   \<and> finishing_bound (Typed (lit ''a, b'')) < count_list (replicate 185 (Step AMAZON)) (Step AMAZON)
   \<and> finished (run tiny_cap (amazon_answering [JNum 5]) (replicate 185 (Step AMAZON))
        (start_scraping tiny_cap (amazon_answering [JNum 5]) [AMAZON, BING] {AMAZON, BING}
           (Typed (lit ''a, b'')))) AMAZON
   \<and> loop_test tiny_cap (new_app\<lparr>workers := (\<lambda>engine. Some new_worker)\<rparr>) new_worker
   \<and> workers (worker_step tiny_cap (amazon_answering [JNum 5]) AMAZON
        (new_app\<lparr>workers := (\<lambda>engine. Some new_worker)\<rparr>)) AMAZON
       = Some \<lparr>scraped_count = 0, consecutive_failures = 0, phase = Starved\<rparr>"
proof -
  have h: "no_new_suggestions (amazon_answering [JNum 5]) (Typed (lit ''a, b''))"
    by (rule amazon_answering_number)
  have p: "finishing_bound (Typed (lit ''a, b'')) = 184"
    unfolding finishing_bound_def by code_simp
  have c: "finishing_bound (Typed (lit ''a, b'')) < count_list (replicate 185 (Step AMAZON)) (Step AMAZON)"
    by (simp add: p count_list_replicate)
  have l: "loop_test tiny_cap (new_app\<lparr>workers := (\<lambda>engine. Some new_worker)\<rparr>) new_worker"
    by (simp add: loop_test_def tiny_cap_def new_app_def new_worker_def max_consecutive_failures_def)
  have q1: "workers (new_app\<lparr>workers := (\<lambda>engine. Some new_worker)\<rparr>) AMAZON = Some new_worker"
    and q2: "phase new_worker = LoopTop"
    and q3: "keyword_queue (new_app\<lparr>workers := (\<lambda>engine. Some new_worker)\<rparr>) = []"
    by (simp_all add: new_app_def new_worker_def)
  note t = every_worker_finishes [OF h, of "replicate 185 (Step AMAZON)" tiny_cap
        "[AMAZON, BING]" "{AMAZON, BING}"]
  from t c have f: "finished (run tiny_cap (amazon_answering [JNum 5]) (replicate 185 (Step AMAZON))
        (start_scraping tiny_cap (amazon_answering [JNum 5]) [AMAZON, BING] {AMAZON, BING}
           (Typed (lit ''a, b'')))) AMAZON"
    by blast
  from t have r: "workers s engine = Some w \<Longrightarrow> phase w = LoopTop \<Longrightarrow> keyword_queue s = [] \<Longrightarrow>
      workers (worker_step tiny_cap (amazon_answering [JNum 5]) engine s) engine
        = Some (w\<lparr>phase := (if loop_test tiny_cap s w then Starved else Halted)\<rparr>)" for s engine w
    by blast
  from r [OF q1 q2 q3] l have g: "workers (worker_step tiny_cap (amazon_answering [JNum 5]) AMAZON
        (new_app\<lparr>workers := (\<lambda>engine. Some new_worker)\<rparr>)) AMAZON
       = Some \<lparr>scraped_count = 0, consecutive_failures = 0, phase = Starved\<rparr>"
    by (simp add: new_worker_def)
  from h c f l g show ?thesis by blast
qed

section \<open>Suggestions that are not normalized\<close>

text \<open>
  Claim C7 at a run of the code. A source answers the seed \<^verbatim>\<open>a\<close> with a suggestion of 201
  characters and with \<^verbatim>\<open>" padded "\<close>: both are put on the queue and saved as they came,
  though \<^verbatim>\<open>_validate_keyword\<close> rejects the first and the second is not trimmed.
\<close>

theorem overlong_suggestion_admitted:
  "keyword_queue overlong_run = [overlong, (lit '' padded '')]
   \<and> terminal overlong_run = [overlong, (lit '' padded '')]
   \<and> file_lines overlong_run = [overlong, (lit '' padded '')]
   \<and> length overlong = 201
   \<and> validate_keyword overlong = False
   \<and> strip (lit '' padded '') = (lit ''padded'')"
  unfolding overlong_run_def overlong_def by code_simp

end
